theory Spec2Isabelle
  imports Complex_Main
begin

section \<open>Scalars\<close>

text \<open>
  The kernels of \<^verbatim>\<open>conic_activeset.cpp\<close> are templates over a scalar type \<^verbatim>\<open>T1\<close>
  that the driver instantiates with \<^verbatim>\<open>double\<close>. The bounds may be infinite and the
  code tests them with \<^verbatim>\<open>isinf\<close>, so a scalar is a real number, one of the two
  infinities or NaN. Arithmetic is exact on the finite values (rounding is not
  modelled, and the two zeros are not told apart: a division of a nonzero number
  by zero takes the sign of the numerator); the special values follow IEEE 754.
\<close>

datatype scalar = NaN | MInf | Fin real | PInf

fun sdiv :: "scalar \<Rightarrow> scalar \<Rightarrow> scalar" where
  "sdiv (Fin a) (Fin b) =
     (if b = 0 then (if a = 0 then NaN else if 0 < a then PInf else MInf)
      else Fin (a / b))"
| "sdiv NaN _ = NaN"
| "sdiv _ NaN = NaN"
| "sdiv (Fin a) PInf = Fin 0"
| "sdiv (Fin a) MInf = Fin 0"
| "sdiv PInf (Fin b) = (if 0 \<le> b then PInf else MInf)"
| "sdiv MInf (Fin b) = (if 0 \<le> b then MInf else PInf)"
| "sdiv PInf _ = NaN"
| "sdiv MInf _ = NaN"

instantiation scalar :: "{zero, one, plus, minus, uminus, times, inverse, abs, ord}"
begin

definition zero_scalar :: scalar where "0 = Fin 0"

definition one_scalar :: scalar where "1 = Fin 1"

fun uminus_scalar :: "scalar \<Rightarrow> scalar" where
  "- NaN = NaN"
| "- MInf = PInf"
| "- Fin a = Fin (- a)"
| "- PInf = MInf"

fun plus_scalar :: "scalar \<Rightarrow> scalar \<Rightarrow> scalar" where
  "Fin a + Fin b = Fin (a + b)"
| "NaN + _ = NaN"
| "_ + NaN = NaN"
| "PInf + MInf = NaN"
| "MInf + PInf = NaN"
| "PInf + _ = PInf"
| "_ + PInf = PInf"
| "MInf + _ = MInf"
| "_ + MInf = MInf"

definition minus_scalar :: "scalar \<Rightarrow> scalar \<Rightarrow> scalar" where
  "a - b = a + (- b :: scalar)"

fun times_scalar :: "scalar \<Rightarrow> scalar \<Rightarrow> scalar" where
  "Fin a * Fin b = Fin (a * b)"
| "NaN * _ = NaN"
| "_ * NaN = NaN"
| "PInf * MInf = MInf"
| "MInf * PInf = MInf"
| "PInf * PInf = PInf"
| "MInf * MInf = PInf"
| "PInf * Fin b = (if b = 0 then NaN else if 0 < b then PInf else MInf)"
| "MInf * Fin b = (if b = 0 then NaN else if 0 < b then MInf else PInf)"
| "Fin a * PInf = (if a = 0 then NaN else if 0 < a then PInf else MInf)"
| "Fin a * MInf = (if a = 0 then NaN else if 0 < a then MInf else PInf)"

definition divide_scalar :: "scalar \<Rightarrow> scalar \<Rightarrow> scalar" where
  "divide_scalar a b = sdiv a b"

definition inverse_scalar :: "scalar \<Rightarrow> scalar" where
  "inverse_scalar a = sdiv (Fin 1) a"

fun abs_scalar :: "scalar \<Rightarrow> scalar" where
  "\<bar>NaN\<bar> = NaN"
| "\<bar>MInf\<bar> = PInf"
| "\<bar>Fin a\<bar> = Fin \<bar>a\<bar>"
| "\<bar>PInf\<bar> = PInf"

fun less_scalar :: "scalar \<Rightarrow> scalar \<Rightarrow> bool" where
  "Fin a < Fin b = (a < b)"
| "NaN < _ = False"
| "_ < NaN = False"
| "MInf < MInf = False"
| "MInf < _ = True"
| "PInf < _ = False"
| "_ < PInf = True"
| "_ < MInf = False"

fun less_eq_scalar :: "scalar \<Rightarrow> scalar \<Rightarrow> bool" where
  "Fin a \<le> Fin b = (a \<le> b)"
| "NaN \<le> _ = False"
| "_ \<le> NaN = False"
| "MInf \<le> _ = True"
| "_ \<le> PInf = True"
| "PInf \<le> _ = False"
| "_ \<le> MInf = False"

instance ..

end

text \<open>The comparison \<^verbatim>\<open>==\<close> of C: a NaN is equal to nothing, itself included.\<close>

definition feq :: "scalar \<Rightarrow> scalar \<Rightarrow> bool" where
  "feq a b = (a \<noteq> NaN \<and> a = b)"

definition isinf :: "scalar \<Rightarrow> bool" where
  "isinf a = (a = PInf \<or> a = MInf)"

text \<open>\<^verbatim>\<open>fmax\<close> and \<^verbatim>\<open>fmin\<close> of C return the other argument when one is a NaN.\<close>

definition fmax :: "scalar \<Rightarrow> scalar \<Rightarrow> scalar" where
  "fmax a b = (if a = NaN then b else if b = NaN then a else if a < b then b else a)"

definition fmin :: "scalar \<Rightarrow> scalar \<Rightarrow> scalar" where
  "fmin a b = (if a = NaN then b else if b = NaN then a else if b < a then b else a)"

definition finite_scalar :: "scalar \<Rightarrow> bool" where
  "finite_scalar a = (case a of Fin _ \<Rightarrow> True | _ \<Rightarrow> False)"


text \<open>The hard-coded thresholds of the source and the smallest positive normal double.\<close>

definition e_12 :: scalar where "e_12 = Fin (1 / 10 ^ 12)"

definition e_14 :: scalar where "e_14 = Fin (1 / 10 ^ 14)"

definition e_16 :: scalar where "e_16 = Fin (1 / 10 ^ 16)"

definition DMIN :: scalar where "DMIN = Fin (1 / 2 ^ 1022)"

section \<open>Data\<close>

type_synonym vec = "scalar list"

text \<open>
  A sparsity pattern in compressed column storage: the source reads the column
  offsets at \<^verbatim>\<open>sp+2\<close> and the row indices behind them.
\<close>

record sparsity =
  nrow :: nat
  ncol :: nat
  colind :: "nat list"
  row :: "nat list"

definition col_range :: "sparsity \<Rightarrow> nat \<Rightarrow> nat list" where
  "col_range sp c = [colind sp ! c ..< colind sp ! Suc c]"

text \<open>
  \<^verbatim>\<open>struct casadi_qp_mem\<close>. The message buffer, the print flag and the symbolic
  part of the QR factorization (\<^verbatim>\<open>prinv\<close>, \<^verbatim>\<open>pc\<close>, \<^verbatim>\<open>sp_v\<close>, \<^verbatim>\<open>sp_r\<close>), which no
  routine of this file reads except to hand it to the QR primitives, are left out.
\<close>

record qp_mem =
  f :: scalar
  nx :: nat
  na :: nat
  nz :: nat
  sp_a :: sparsity
  sp_h :: sparsity
  sp_at :: sparsity
  sp_kkt :: sparsity
  nz_a :: vec
  nz_h :: vec
  g :: vec
  z :: vec
  lbz :: vec
  ubz :: vec
  infeas :: vec
  tinfeas :: vec
  lam :: vec
  w :: vec
  dz :: vec
  dlam :: vec
  iw :: "int list"
  neverzero :: "bool list"
  neverlower :: "bool list"
  neverupper :: "bool list"
  nz_at :: vec
  nz_kkt :: vec
  beta :: vec
  nz_v :: vec
  nz_r :: vec
  dmin :: scalar
  inf :: scalar
  du_to_pr :: scalar
  tau :: scalar
  sing :: int
  mina :: scalar
  imina :: int
  pr :: scalar
  du :: scalar
  ipr :: int
  idu :: int

text \<open>
  The sparse QR and the transposition live in the linear-algebra runtime, outside this
  file; the solver is verified for any implementation of them.
  \<^item> \<open>casadi_trans x sp_x sp_y\<close>: the nonzeros of the transpose;
  \<^item> \<open>casadi_qr sp nz\<close>: the numeric factorization \<open>(nz_v, nz_r, beta)\<close>;
  \<^item> \<open>casadi_qr_solve b tr nz_v nz_r beta\<close>: the solution for one right-hand side;
  \<^item> \<open>casadi_qr_singular nz_r eps\<close>: the nullity with \<open>(mina, imina)\<close>;
  \<^item> \<open>casadi_qr_colcomb nz_r imina k\<close>: the \<open>k\<close>-th null-space vector.
\<close>

record prims =
  casadi_trans :: "vec \<Rightarrow> sparsity \<Rightarrow> sparsity \<Rightarrow> vec"
  casadi_qr :: "sparsity \<Rightarrow> vec \<Rightarrow> vec \<times> vec \<times> vec"
  casadi_qr_solve :: "vec \<Rightarrow> bool \<Rightarrow> vec \<Rightarrow> vec \<Rightarrow> vec \<Rightarrow> vec"
  casadi_qr_singular :: "vec \<Rightarrow> scalar \<Rightarrow> int \<times> scalar \<times> int"
  casadi_qr_colcomb :: "vec \<Rightarrow> int \<Rightarrow> int \<Rightarrow> vec"

datatype error = NoSignPossible nat | InputsRejected | OutOfBounds

section \<open>Dense and sparse vector kernels\<close>

text \<open>
  Modelled from the spec: \<^verbatim>\<open>casadi_fill\<close>, \<^verbatim>\<open>casadi_copy\<close>, \<^verbatim>\<open>casadi_axpy\<close>,
  \<^verbatim>\<open>casadi_scal\<close>, \<^verbatim>\<open>casadi_dot\<close>, \<^verbatim>\<open>casadi_mv\<close> and \<^verbatim>\<open>casadi_bilin\<close> are
  runtime kernels whose source is not part of this file; the spec gives their
  contracts (\<open>fill\<close>, \<open>copy\<close>, \<open>axpy\<close>: y += a x, \<open>scal\<close>, \<open>dot\<close>,
  \<open>sparse_mv\<close>: y += A x or its transposed form, \<open>bilin\<close>: the bilinear form of H). Each works on the
  first \<open>n\<close> entries of an array and leaves the rest.
\<close>

definition casadi_fill :: "vec \<Rightarrow> nat \<Rightarrow> scalar \<Rightarrow> vec" where
  "casadi_fill x n alpha = map (\<lambda>i. if i < n then alpha else x ! i) [0 ..< length x]"

definition casadi_copy :: "vec \<Rightarrow> nat \<Rightarrow> vec \<Rightarrow> vec" where
  "casadi_copy x n y = map (\<lambda>i. if i < n then x ! i else y ! i) [0 ..< length y]"

definition casadi_axpy :: "nat \<Rightarrow> scalar \<Rightarrow> vec \<Rightarrow> vec \<Rightarrow> vec" where
  "casadi_axpy n alpha x y =
     map (\<lambda>i. if i < n then y ! i + alpha * x ! i else y ! i) [0 ..< length y]"

definition casadi_scal :: "nat \<Rightarrow> scalar \<Rightarrow> vec \<Rightarrow> vec" where
  "casadi_scal n alpha x = map (\<lambda>i. if i < n then x ! i * alpha else x ! i) [0 ..< length x]"

definition casadi_dot :: "nat \<Rightarrow> vec \<Rightarrow> vec \<Rightarrow> scalar" where
  "casadi_dot n x y = fold (\<lambda>i r. r + x ! i * y ! i) [0 ..< n] 0"

definition casadi_mv :: "vec \<Rightarrow> sparsity \<Rightarrow> vec \<Rightarrow> vec \<Rightarrow> bool \<Rightarrow> vec" where
  "casadi_mv x sp_x y zz tr =
     fold (\<lambda>cc. fold (\<lambda>el zz.
         if tr then zz[cc := zz ! cc + x ! el * y ! (row sp_x ! el)]
         else zz[row sp_x ! el := zz ! (row sp_x ! el) + x ! el * y ! cc])
       (col_range sp_x cc)) [0 ..< ncol sp_x] zz"

definition casadi_bilin :: "vec \<Rightarrow> sparsity \<Rightarrow> vec \<Rightarrow> vec \<Rightarrow> scalar" where
  "casadi_bilin A sp_A x y =
     fold (\<lambda>cc. fold (\<lambda>el r. r + x ! (row sp_A ! el) * (A ! el * y ! cc))
       (col_range sp_A cc)) [0 ..< ncol sp_A] 0"

section \<open>Primal and dual error\<close>

definition casadi_qp_pr :: "qp_mem \<Rightarrow> qp_mem" where
  "casadi_qp_pr m =
     fold (\<lambda>i m.
        if ubz m ! i + pr m < z m ! i then m\<lparr>pr := z m ! i - ubz m ! i, ipr := int i\<rparr>
        else if z m ! i < lbz m ! i - pr m then m\<lparr>pr := lbz m ! i - z m ! i, ipr := int i\<rparr>
        else m)
       [0 ..< nz m] (m\<lparr>pr := 0, ipr := - 1\<rparr>)"

definition casadi_qp_du :: "qp_mem \<Rightarrow> qp_mem" where
  "casadi_qp_du m =
     fold (\<lambda>i m.
        if du m < infeas m ! i then m\<lparr>du := infeas m ! i, idu := int i\<rparr>
        else if infeas m ! i < - du m then m\<lparr>du := - infeas m ! i, idu := int i\<rparr>
        else m)
       [0 ..< nx m] (m\<lparr>du := 0, idu := - 1\<rparr>)"


section \<open>Choosing an index\<close>

text \<open>
  \<^verbatim>\<open>ipr\<close> and \<^verbatim>\<open>idu\<close> are \<open>-1\<close> when there is no violation. The two routines that
  choose an index use them without a test: the model answers \<open>OutOfBounds\<close> for an
  index outside the array. \<^verbatim>\<open>casadi_qp_flip\<close> calls them only behind a test of the
  two errors, and with a positive finite \<open>du_to_pr\<close> that test keeps such an index
  away (\<open>qp_loop_returns\<close> below).
\<close>

definition casadi_qp_pr_index :: "qp_mem \<Rightarrow> int \<Rightarrow> error + int \<times> int" where
  "casadi_qp_pr_index m sign =
     (if ipr m < 0 \<or> int (nz m) \<le> ipr m then Inl OutOfBounds
      else if feq (lam m ! nat (ipr m)) 0 then
        Inr (ipr m, if z m ! nat (ipr m) < lbz m ! nat (ipr m) then - 1 else 1)
      else Inr (- 1, sign))"

definition casadi_qp_du_check :: "qp_mem \<Rightarrow> nat \<Rightarrow> scalar" where
  "casadi_qp_du_check m i =
     (if i < nx m then \<bar>infeas m ! i - lam m ! i\<bar>
      else fold (\<lambda>k new_du.
             fmax new_du \<bar>infeas m ! (row (sp_at m) ! k) - nz_at m ! k * lam m ! i\<bar>)
           (col_range (sp_at m) (i - nx m)) 0)"

definition du_index_cand :: "qp_mem \<Rightarrow> nat \<Rightarrow> int \<times> scalar \<Rightarrow> int \<times> scalar" where
  "du_index_cand m i bb =
     (if feq (w m ! i) 0 then bb
      else if (if 0 < w m ! i then 0 \<le> lam m ! i else lam m ! i \<le> 0) then bb
      else if du m < casadi_qp_du_check m i then bb
      else if snd bb < \<bar>w m ! i\<bar> then (int i, \<bar>w m ! i\<bar>)
      else bb)"

definition casadi_qp_du_index :: "qp_mem \<Rightarrow> int \<Rightarrow> error + qp_mem \<times> int \<times> int" where
  "casadi_qp_du_index m sign =
     (if idu m < 0 \<or> int (nx m) \<le> idu m then Inl OutOfBounds
      else
        let w0 = casadi_fill (w m) (nz m) 0;
            w1 = w0[nat (idu m) := (if 0 < infeas m ! nat (idu m) then - 1 else 1)];
            w2 = take (nx m) w1 @ casadi_mv (nz_a m) (sp_a m) w1 (drop (nx m) w1) False;
            m1 = m\<lparr>w := w2\<rparr>;
            best = fold (du_index_cand m1) [0 ..< nz m1] (- 1, 0)
        in if 0 \<le> fst best then Inr (m1, fst best, 0) else Inr (m1, - 1, sign))"

section \<open>The KKT matrix\<close>

definition kkt_scatter :: "qp_mem \<Rightarrow> vec \<Rightarrow> nat \<Rightarrow> bool \<Rightarrow> vec" where
  "kkt_scatter m v i free =
     (if i < nx m then
        (if free then
           fold (\<lambda>k v. v[nx m + row (sp_a m) ! k := nz_a m ! k]) (col_range (sp_a m) i)
             (fold (\<lambda>k v. v[row (sp_h m) ! k := nz_h m ! k]) (col_range (sp_h m) i) v)
         else v[i := 1])
      else
        (if free then v[i := - 1]
         else fold (\<lambda>k v. v[row (sp_at m) ! k := nz_at m ! k])
                (col_range (sp_at m) (i - nx m)) v))"

definition kkt_gather :: "sparsity \<Rightarrow> nat \<Rightarrow> vec \<times> vec \<Rightarrow> vec \<times> vec" where
  "kkt_gather sp i kw =
     fold (\<lambda>k (kkt, v). (kkt[k := v ! (row sp ! k)], v[row sp ! k := 0]))
       (col_range sp i) kw"

definition casadi_qp_kkt :: "qp_mem \<Rightarrow> qp_mem" where
  "casadi_qp_kkt m =
     fold (\<lambda>i m.
        let kw = kkt_gather (sp_kkt m) i
                   (nz_kkt m, kkt_scatter m (w m) i (feq (lam m ! i) 0))
        in m\<lparr>nz_kkt := fst kw, w := snd kw\<rparr>)
       [0 ..< nz m] (m\<lparr>w := casadi_fill (w m) (nz m) 0\<rparr>)"

definition casadi_qp_kkt_column :: "qp_mem \<Rightarrow> vec \<Rightarrow> nat \<Rightarrow> int \<Rightarrow> vec" where
  "casadi_qp_kkt_column m kkt_i i sign =
     kkt_scatter m (casadi_fill kkt_i (nz m) 0) i (sign = 0)"

definition casadi_qp_kkt_dot :: "qp_mem \<Rightarrow> vec \<Rightarrow> nat \<Rightarrow> int \<Rightarrow> scalar" where
  "casadi_qp_kkt_dot m v i sign =
     (if i < nx m then
        (if sign = 0 then
           fold (\<lambda>k d. d + v ! (nx m + row (sp_a m) ! k) * nz_a m ! k) (col_range (sp_a m) i)
             (fold (\<lambda>k d. d + v ! (row (sp_h m) ! k) * nz_h m ! k) (col_range (sp_h m) i) 0)
         else v ! i)
      else
        (if sign = 0 then - (v ! i)
         else fold (\<lambda>k d. d + v ! (row (sp_at m) ! k) * nz_at m ! k)
                (col_range (sp_at m) (i - nx m)) 0))"

definition casadi_qp_kkt_residual :: "qp_mem \<Rightarrow> vec \<Rightarrow> vec" where
  "casadi_qp_kkt_residual m r =
     fold (\<lambda>i r.
        r[i := (if 0 < lam m ! i then ubz m ! i - z m ! i
                else if lam m ! i < 0 then lbz m ! i - z m ! i
                else if i < nx m then lam m ! i - infeas m ! i
                else lam m ! i)])
       [0 ..< nz m] r"

section \<open>Dependent quantities\<close>

definition lam_clamp :: "qp_mem \<Rightarrow> nat \<Rightarrow> scalar" where
  "lam_clamp m i =
     (if 0 < lam m ! i then fmax (- (infeas m ! i)) (dmin m)
      else if lam m ! i < 0 then fmin (- (infeas m ! i)) (- dmin m)
      else lam m ! i)"

text \<open>
  \<^verbatim>\<open>casadi_qp_calc_dependent\<close> in its stages: the cost, the constraint values
  \<open>z[nx:]\<close>, the gradient of the Lagrangian, the multipliers of the simple bounds,
  and the two errors.
\<close>

definition calc_f :: "qp_mem \<Rightarrow> qp_mem" where
  "calc_f m = m\<lparr>f := casadi_bilin (nz_h m) (sp_h m) (z m) (z m) / Fin 2
                       + casadi_dot (nx m) (z m) (g m)\<rparr>"

definition calc_z :: "qp_mem \<Rightarrow> qp_mem" where
  "calc_z m = m\<lparr>z := take (nx m) (z m)
                      @ casadi_mv (nz_a m) (sp_a m) (z m)
                          (casadi_fill (drop (nx m) (z m)) (na m) 0) False\<rparr>"

definition calc_gradient :: "qp_mem \<Rightarrow> qp_mem" where
  "calc_gradient m =
     m\<lparr>infeas := casadi_mv (nz_a m) (sp_a m) (drop (nx m) (lam m))
                    (casadi_mv (nz_h m) (sp_h m) (z m)
                       (casadi_copy (g m) (nx m) (infeas m)) False) True\<rparr>"

definition calc_lam :: "qp_mem \<Rightarrow> qp_mem" where
  "calc_lam m =
     fold (\<lambda>i m. let l = lam_clamp m i
                 in m\<lparr>lam := (lam m)[i := l], infeas := (infeas m)[i := infeas m ! i + l]\<rparr>)
       [0 ..< nx m] m"

definition casadi_qp_calc_dependent :: "qp_mem \<Rightarrow> qp_mem" where
  "casadi_qp_calc_dependent m =
     casadi_qp_du (casadi_qp_pr (calc_lam (calc_gradient (calc_z (calc_f m)))))"

section \<open>Ratio tests\<close>

text \<open>
  The routines return the values they write through \<^verbatim>\<open>index\<close> and \<^verbatim>\<open>sign\<close>.
  In \<^verbatim>\<open>casadi_qp_zero_blocking\<close> the local \<^verbatim>\<open>dz_max\<close> is set to zero and never
  written again.
\<close>

definition casadi_qp_zero_blocking ::
  "qp_mem \<Rightarrow> scalar \<Rightarrow> int \<Rightarrow> int \<Rightarrow> bool \<times> int \<times> int" where
  "casadi_qp_zero_blocking m e index sign =
     fold (\<lambda>i (ret, index, sign).
        if 0 < - (dz m ! i) \<and> z m ! i \<le> lbz m ! i - e then (True, int i, - 1)
        else if 0 < dz m ! i \<and> ubz m ! i + e \<le> z m ! i then (True, int i, 1)
        else (ret, index, sign))
       [0 ..< nz m] (False, index, sign)"

fun primal_blocking_loop ::
  "scalar \<Rightarrow> nat list \<Rightarrow> qp_mem \<times> int \<times> int \<Rightarrow> qp_mem \<times> int \<times> int" where
  "primal_blocking_loop e [] s = s"
| "primal_blocking_loop e (i # is) (m, index, sign) =
     (if feq (dz m ! i) 0 then primal_blocking_loop e is (m, index, sign)
      else
        let trial_z = z m ! i + tau m * dz m ! i;
            s = (if dz m ! i < 0 \<and> trial_z < lbz m ! i - e then
                   (m\<lparr>tau := (lbz m ! i - e - z m ! i) / dz m ! i\<rparr>,
                    (if lam m ! i < 0 then - 1 else int i), - 1)
                 else if 0 < dz m ! i \<and> ubz m ! i + e < trial_z then
                   (m\<lparr>tau := (ubz m ! i + e - z m ! i) / dz m ! i\<rparr>,
                    (if 0 < lam m ! i then - 1 else int i), 1)
                 else (m, index, sign))
        in if tau (fst s) \<le> 0 then s else primal_blocking_loop e is s)"

definition casadi_qp_primal_blocking ::
  "qp_mem \<Rightarrow> scalar \<Rightarrow> int \<Rightarrow> int \<Rightarrow> qp_mem \<times> int \<times> int" where
  "casadi_qp_primal_blocking m e index sign =
     (case casadi_qp_zero_blocking m e index sign of
        (True, index', sign') \<Rightarrow> (m\<lparr>tau := 0\<rparr>, index', sign')
      | (False, index', sign') \<Rightarrow> primal_blocking_loop e [0 ..< nz m] (m, index', sign'))"

text \<open>
  \<^verbatim>\<open>casadi_qp_dual_breakpoints\<close>: the search for the place of a new breakpoint and
  the loop that inserts it by shifting the tail, entry by entry.
\<close>

fun find_loc :: "vec \<Rightarrow> scalar \<Rightarrow> nat list \<Rightarrow> nat \<Rightarrow> nat" where
  "find_loc tau_list new_tau [] n = n"
| "find_loc tau_list new_tau (loc # locs) n =
     (if new_tau < tau_list ! loc then loc else find_loc tau_list new_tau locs n)"

definition insert_shift ::
  "nat \<Rightarrow> nat \<Rightarrow> scalar \<Rightarrow> int \<Rightarrow> vec \<times> int list \<Rightarrow> vec \<times> int list" where
  "insert_shift loc n_tau new_tau i ti =
     fst (fold (\<lambda>j ((tau_list, ind_list), next_tau, next_ind).
                  ((tau_list[j := next_tau], ind_list[j := next_ind]),
                   tau_list ! j, ind_list ! j))
            [loc ..< n_tau] (ti, new_tau, i))"

definition breakpoint_step ::
  "qp_mem \<Rightarrow> scalar \<Rightarrow> nat \<Rightarrow> (vec \<times> int list) \<times> nat \<Rightarrow> (vec \<times> int list) \<times> nat" where
  "breakpoint_step m t i s =
     (if feq (dlam m ! i) 0 then s
      else if feq (lam m ! i) 0 then s
      else
        let trial_lam = lam m ! i + t * dlam m ! i
        in if (if 0 < lam m ! i then 0 \<le> trial_lam else trial_lam \<le> 0) then s
           else
             let new_tau = - (lam m ! i) / dlam m ! i;
                 n_tau = snd s;
                 loc = find_loc (fst (fst s)) new_tau [0 ..< n_tau - 1] (n_tau - 1)
             in (insert_shift loc (n_tau + 1) new_tau (int i) (fst s), n_tau + 1))"

definition casadi_qp_dual_breakpoints ::
  "qp_mem \<Rightarrow> vec \<Rightarrow> int list \<Rightarrow> scalar \<Rightarrow> scalar \<Rightarrow> (vec \<times> int list) \<times> nat" where
  "casadi_qp_dual_breakpoints m tau_list ind_list e t =
     fold (breakpoint_step m t) [0 ..< nz m]
       ((tau_list[0 := t], ind_list[0 := - 1]), 1)"

definition dual_blocking_scan ::
  "scalar \<Rightarrow> scalar \<Rightarrow> scalar \<Rightarrow> qp_mem \<times> int \<Rightarrow> qp_mem \<times> int" where
  "dual_blocking_scan e tau_k dtau s =
     fold (\<lambda>k (m, du_index).
        let new_infeas = infeas m ! k + dtau * tinfeas m ! k
        in if e < \<bar>new_infeas\<bar> then
             let tau1 = fmax 0 (tau_k + ((if 0 < new_infeas then e else - e) - infeas m ! k)
                                        / tinfeas m ! k)
             in if tau1 < tau m then (m\<lparr>tau := tau1\<rparr>, int k) else (m, du_index)
           else (m, du_index))
       [0 ..< nx (fst s)] s"

definition tinfeas_drop :: "qp_mem \<Rightarrow> nat \<Rightarrow> qp_mem" where
  "tinfeas_drop m i =
     (if neverzero m ! i then m
      else if i < nx m then m\<lparr>tinfeas := (tinfeas m)[i := tinfeas m ! i - dlam m ! i]\<rparr>
      else fold (\<lambda>k m. m\<lparr>tinfeas := (tinfeas m)[row (sp_at m) ! k :=
                          tinfeas m ! (row (sp_at m) ! k) - nz_at m ! k * dlam m ! i]\<rparr>)
             (col_range (sp_at m) (i - nx m)) m)"

fun dual_blocking_loop :: "scalar \<Rightarrow> nat list \<Rightarrow> scalar \<Rightarrow> qp_mem \<times> int \<Rightarrow> qp_mem \<times> int" where
  "dual_blocking_loop e [] tau_k s = s"
| "dual_blocking_loop e (j # js) tau_k s =
     (let dtau = w (fst s) ! j - tau_k;
          s1 = dual_blocking_scan e tau_k dtau s;
          m1 = fst s1;
          m2 = m1\<lparr>infeas := casadi_axpy (nx m1) (fmin (tau m1 - tau_k) dtau)
                                (tinfeas m1) (infeas m1)\<rparr>
      in if 0 \<le> snd s1 then (m2, snd s1)
         else if iw m2 ! j < 0 then (m2, snd s1)
         else dual_blocking_loop e js (w m2 ! j) (tinfeas_drop m2 (nat (iw m2 ! j)), snd s1))"

definition casadi_qp_dual_blocking :: "qp_mem \<Rightarrow> scalar \<Rightarrow> qp_mem \<times> int" where
  "casadi_qp_dual_blocking m e =
     (let b = casadi_qp_dual_breakpoints m (w m) (iw m) e (tau m);
          m1 = m\<lparr>w := fst (fst b), iw := snd (fst b)\<rparr>
      in dual_blocking_loop e [0 ..< snd b] 0 (m1, - 1))"

definition take_step_sign :: "qp_mem \<Rightarrow> nat \<Rightarrow> qp_mem" where
  "take_step_sign m i =
     (let m1 = (if neverzero m ! i
                    \<and> (if iw m ! i < 0 then 0 < lam m ! i else lam m ! i < 0)
                then m\<lparr>iw := (iw m)[i := - (iw m ! i)]\<rparr> else m)
      in if iw m1 ! i = - 1 then m1\<lparr>lam := (lam m1)[i := fmin (lam m1 ! i) (- dmin m1)]\<rparr>
         else if iw m1 ! i = 1 then m1\<lparr>lam := (lam m1)[i := fmax (lam m1 ! i) (dmin m1)]\<rparr>
         else if iw m1 ! i = 0 then m1\<lparr>lam := (lam m1)[i := 0]\<rparr>
         else m1)"

definition casadi_qp_take_step :: "qp_mem \<Rightarrow> qp_mem" where
  "casadi_qp_take_step m =
     (let m1 = fold (\<lambda>i m. m\<lparr>iw := (iw m)[i := (if 0 < lam m ! i then 1
                                                 else if lam m ! i < 0 then - 1 else 0)]\<rparr>)
                 [0 ..< nz m] m;
          m2 = m1\<lparr>z := casadi_axpy (nz m1) (tau m1) (dz m1) (z m1)\<rparr>;
          m3 = m2\<lparr>lam := casadi_axpy (nz m2) (tau m2) (dlam m2) (lam m2)\<rparr>
      in fold (\<lambda>i m. take_step_sign m i) [0 ..< nz m3] m3)"

definition casadi_qp_linesearch :: "qp_mem \<Rightarrow> qp_mem \<times> int \<times> int" where
  "casadi_qp_linesearch m =
     (let m0 = m\<lparr>tau := 1\<rparr>;
          p = casadi_qp_primal_blocking m0 (fmax (pr m0) (du m0 / du_to_pr m0)) (- 1) 0;
          m1 = fst p;
          d = casadi_qp_dual_blocking m1 (fmax (pr m1 * du_to_pr m1) (du m1));
          is = (if 0 \<le> snd d then (- 1, 0) else snd p)
      in (casadi_qp_take_step (fst d), is))"


section \<open>Keeping the KKT matrix regular\<close>

definition flip_check_cand ::
  "qp_mem \<Rightarrow> nat \<Rightarrow> scalar \<Rightarrow> nat \<Rightarrow> scalar \<times> int \<times> int \<Rightarrow> scalar \<times> int \<times> int" where
  "flip_check_cand m index e i b =
     (if i = index then b
      else if (if feq (lam m ! i) 0 then neverlower m ! i \<and> neverupper m ! i
               else neverzero m ! i) then b
      else if \<bar>dz m ! i\<bar> < e_12 then b
      else if \<bar>casadi_qp_kkt_dot m (w m) i (if feq (lam m ! i) 0 then 1 else 0)\<bar> < e_12 then b
      else if feq (lam m ! i) 0 then
        (let new_sign = (if z m ! i - ubz m ! i \<le> lbz m ! i - z m ! i then - 1 else 1);
             new_slack = 0
         in if fst b < new_slack then (new_slack, int i, new_sign) else b)
      else if e < casadi_qp_du_check m i then b
      else
        (let new_slack = (if 0 < lam m ! i then ubz m ! i - z m ! i else z m ! i - lbz m ! i);
             new_sign = 0
         in if fst b < new_slack then (new_slack, int i, new_sign) else b))"

text \<open>The result is the memory, the return value and the two output arguments.\<close>

definition casadi_qp_flip_check ::
  "prims \<Rightarrow> qp_mem \<Rightarrow> nat \<Rightarrow> int \<Rightarrow> int \<Rightarrow> int \<Rightarrow> scalar \<Rightarrow> qp_mem \<times> int \<times> int \<times> int" where
  "casadi_qp_flip_check P m index sign r_index r_sign e =
     (let m1 = m\<lparr>dz := casadi_qp_kkt_column m (dz m) index sign\<rparr>;
          m2 = m1\<lparr>dz := casadi_qr_solve P (dz m1) False (nz_v m1) (nz_r m1) (beta m1)\<rparr>
      in if e_12 \<le> \<bar>dz m2 ! index\<bar> then (m2, 0, r_index, r_sign)
         else
           let m3 = m2\<lparr>w := casadi_qp_kkt_column m2 (w m2) index (if sign = 0 then 1 else 0)\<rparr>;
               b = fold (flip_check_cand m3 index e) [0 ..< nz m3] (MInf, - 1, 0)
           in (m3, (if 0 \<le> fst (snd b) then 0 else 1), snd b))"

definition casadi_qp_factorize :: "prims \<Rightarrow> qp_mem \<Rightarrow> qp_mem" where
  "casadi_qp_factorize P m =
     (let m1 = casadi_qp_kkt m;
          vrb = casadi_qr P (sp_kkt m1) (nz_kkt m1);
          m2 = m1\<lparr>nz_v := fst vrb, nz_r := fst (snd vrb), beta := snd (snd vrb)\<rparr>;
          sg = casadi_qr_singular P (nz_r m2) e_12
      in m2\<lparr>sing := fst sg, mina := fst (snd sg), imina := snd (snd sg)\<rparr>)"

section \<open>Search direction\<close>

text \<open>A candidate of the singular case: the step length and the flip
  \<open>(tau, r_index, r_sign)\<close> found so far.\<close>

definition scale_bound ::
  "scalar \<Rightarrow> scalar \<Rightarrow> nat \<Rightarrow> int \<Rightarrow> scalar \<times> int \<times> int \<Rightarrow> scalar \<times> int \<times> int" where
  "scale_bound terr tau_test i sg c =
     (if \<not> ((0 < terr \<and> 0 < tau_test) \<or> (terr < 0 \<and> tau_test < 0)) then
        (if e_16 \<le> \<bar>tau_test\<bar> then
           (if \<bar>tau_test\<bar> < \<bar>fst c\<bar> then (tau_test, int i, sg) else c)
         else c)
      else c)"

definition scale_cand ::
  "qp_mem \<Rightarrow> bool \<Rightarrow> bool \<Rightarrow> scalar \<Rightarrow> nat \<Rightarrow> scalar \<times> int \<times> int \<Rightarrow> scalar \<times> int \<times> int" where
  "scale_cand m pos_ok neg_ok terr i c =
     (if \<bar>if i < nx m then dz m ! i else dlam m ! i\<bar> < e_12 then c
      else if \<bar>casadi_qp_kkt_dot m (w m) i 0 - casadi_qp_kkt_dot m (w m) i 1\<bar> < e_12 then c
      else if feq (lam m ! i) 0 then
        (if \<bar>dz m ! i\<bar> < e_12 then c
         else
           let c1 = (if \<not> neverlower m ! i
                     then scale_bound terr ((lbz m ! i - z m ! i) / dz m ! i) i (- 1) c else c)
           in (if \<not> neverupper m ! i
               then scale_bound terr ((ubz m ! i - z m ! i) / dz m ! i) i 1 c1 else c1))
      else
        (if \<bar>dlam m ! i\<bar> < e_12 then c
         else if \<not> neverzero m ! i then
           (let tau_test = - (lam m ! i) / dlam m ! i
            in if (0 < terr \<and> 0 < tau_test) \<or> (terr < 0 \<and> tau_test < 0) then c
               else if (0 < tau_test \<and> \<not> pos_ok) \<or> (tau_test < 0 \<and> \<not> neg_ok) then c
               else if \<bar>tau_test\<bar> < \<bar>fst c\<bar> then (tau_test, int i, 0)
               else c)
         else c))"

definition scale_dir :: "qp_mem \<Rightarrow> scalar \<Rightarrow> scalar \<Rightarrow> bool \<times> bool \<times> scalar" where
  "scale_dir m tpr tdu =
     (if du m < pr m then
        (if tpr < 0 then (True, False, tpr)
         else if 0 < tpr then (False, True, tpr)
         else (True, True, tpr))
      else if pr m < du m then
        (if tdu < 0 then (True, False, tdu)
         else if 0 < tdu then (False, True, tdu)
         else (True, True, tdu))
      else
        (if (0 < tpr \<and> tdu < 0) \<or> (tpr < 0 \<and> 0 < tdu) then (False, False, 0)
         else if fmin tpr tdu < 0 then (True, False, fmax tpr tdu)
         else if 0 < fmax tpr tdu then (False, True, fmin tpr tdu)
         else (True, True, 0)))"

text \<open>
  The test "primal error is dominating and constraint is active" reads
  \<^verbatim>\<open>lam[ipr]\<close> and \<^verbatim>\<open>dlam[ipr]\<close> as soon as \<^verbatim>\<open>du_to_pr*pr >= du\<close> holds, without
  looking at \<^verbatim>\<open>ipr\<close>, which is \<open>-1\<close> when no bound is violated. \<^verbatim>\<open>eval\<close> lays
  the vectors out one behind the other in its work vector, in the order \<open>z\<close>,
  \<open>lbz\<close>, \<open>ubz\<close>, \<open>lam\<close>, \<open>dz\<close>, \<open>dlam\<close>, each of \<open>nx + na\<close> entries: the
  entry before \<open>lam\<close> is the last one of \<open>ubz\<close>, and the entry before \<open>dlam\<close> the
  last one of \<open>dz\<close>. \<open>lam_at\<close> and \<open>dlam_at\<close> are the two reads;
  \<open>scale_reads_ipr\<close> says when the routine makes them.
\<close>

definition lam_at :: "qp_mem \<Rightarrow> int \<Rightarrow> scalar" where
  "lam_at m i = (if 0 \<le> i then lam m ! nat i else ubz m ! nat (int (nz m) + i))"

definition dlam_at :: "qp_mem \<Rightarrow> int \<Rightarrow> scalar" where
  "dlam_at m i = (if 0 \<le> i then dlam m ! nat i else dz m ! nat (int (nz m) + i))"

definition scale_reads_ipr :: "qp_mem \<Rightarrow> bool" where
  "scale_reads_ipr m = (sing m \<noteq> 0 \<and> du m \<le> du_to_pr m * pr m)"

definition scale_tpr :: "qp_mem \<Rightarrow> scalar" where
  "scale_tpr m =
     (if ipr m < 0 then 0
      else if ubz m ! nat (ipr m) < z m ! nat (ipr m) then dz m ! nat (ipr m) / pr m
      else - (dz m ! nat (ipr m)) / pr m)"

definition scale_tdu :: "qp_mem \<Rightarrow> scalar" where
  "scale_tdu m = (if idu m < 0 then 0 else tinfeas m ! nat (idu m) / infeas m ! nat (idu m))"

definition scale_restrict :: "qp_mem \<Rightarrow> bool \<times> bool \<Rightarrow> bool \<times> bool" where
  "scale_restrict m ok =
     (if du m \<le> du_to_pr m * pr m \<and> \<not> feq (lam_at m (ipr m)) 0
         \<and> e_12 < \<bar>dlam_at m (ipr m)\<bar>
      then (if (0 < lam_at m (ipr m)) = (0 < dlam_at m (ipr m))
            then (fst ok, False) else (False, snd ok))
      else ok)"

definition scale_refactor :: "prims \<Rightarrow> qp_mem \<Rightarrow> qp_mem" where
  "scale_refactor P m =
     (let m1 = m\<lparr>nz_v := casadi_trans P (nz_kkt m) (sp_kkt m) (sp_kkt m)\<rparr>;
          m2 = m1\<lparr>nz_kkt := casadi_copy (nz_v m1) (colind (sp_kkt m1) ! nz m1) (nz_kkt m1)\<rparr>;
          vrb = casadi_qr P (sp_kkt m2) (nz_kkt m2)
      in m2\<lparr>nz_v := fst vrb, nz_r := fst (snd vrb), beta := snd (snd vrb)\<rparr>)"

definition scale_search ::
  "prims \<Rightarrow> qp_mem \<Rightarrow> bool \<times> bool \<Rightarrow> scalar \<Rightarrow> qp_mem \<times> scalar \<times> int \<times> int" where
  "scale_search P m ok terr =
     (let sg = casadi_qr_singular P (nz_r m) e_12
      in fold (\<lambda>nulli (m, c).
            let m' = m\<lparr>w := casadi_qr_colcomb P (nz_r m) (snd (snd sg)) (int nulli)\<rparr>
            in (m', fold (scale_cand m' (fst ok) (snd ok) terr) [0 ..< nz m'] c))
           [0 ..< nat (fst sg)] (m, inf m, - 1, 0))"

definition scale_apply :: "qp_mem \<times> scalar \<times> int \<times> int \<Rightarrow> qp_mem \<times> int \<times> int \<times> int" where
  "scale_apply mc =
     (let m = fst mc; tau' = fst (snd mc); r = snd (snd mc)
      in if fst r < 0 then (m, 1, r)
         else (m\<lparr>dz := casadi_scal (nz m) tau' (dz m),
                 dlam := casadi_scal (nz m) tau' (dlam m),
                 tinfeas := casadi_scal (nx m) tau' (tinfeas m)\<rparr>, 0, r))"

definition casadi_qp_scale_step :: "prims \<Rightarrow> qp_mem \<Rightarrow> qp_mem \<times> int \<times> int \<times> int" where
  "casadi_qp_scale_step P m =
     (if sing m = 0 then (m, 0, - 1, 0)
      else
        let d = scale_dir m (scale_tpr m) (scale_tdu m)
        in scale_apply (scale_search P (scale_refactor P m)
                          (scale_restrict m (fst d, fst (snd d))) (snd (snd d))))"

definition calc_dz :: "prims \<Rightarrow> qp_mem \<Rightarrow> qp_mem" where
  "calc_dz P m =
     (if sing m = 0 then
        m\<lparr>dz := casadi_qr_solve P (casadi_qp_kkt_residual m (dz m)) True
                   (nz_v m) (nz_r m) (beta m)\<rparr>
      else m\<lparr>dz := casadi_qr_colcomb P (nz_r m) (imina m) 0\<rparr>)"

definition calc_dlam :: "qp_mem \<Rightarrow> qp_mem" where
  "calc_dlam m =
     (let m2 = m\<lparr>dlam := casadi_fill (dlam m) (nx m) 0\<rparr>;
          m3 = m2\<lparr>dlam := casadi_mv (nz_h m2) (sp_h m2) (dz m2) (dlam m2) False\<rparr>;
          m4 = m3\<lparr>dlam := casadi_mv (nz_a m3) (sp_a m3) (drop (nx m3) (dz m3)) (dlam m3) True\<rparr>;
          m5 = m4\<lparr>dlam := casadi_scal (nx m4) (- 1) (dlam m4)\<rparr>;
          m6 = m5\<lparr>dlam := fold (\<lambda>i dl. if feq (lam m5 ! i) 0 then dl[i := 0] else dl)
                              [0 ..< nx m5] (dlam m5)\<rparr>
      in m6\<lparr>dlam := take (nx m6) (dlam m6)
                     @ casadi_copy (drop (nx m6) (dz m6)) (na m6) (drop (nx m6) (dlam m6))\<rparr>)"

definition calc_dz_tail :: "qp_mem \<Rightarrow> qp_mem" where
  "calc_dz_tail m =
     (let m8 = m\<lparr>dz := take (nx m) (dz m)
                    @ casadi_mv (nz_a m) (sp_a m) (dz m)
                        (casadi_fill (drop (nx m) (dz m)) (na m) 0) False\<rparr>
      in m8\<lparr>dz := fold (\<lambda>i d. if \<bar>d ! i\<bar> < e_14 then d[i := 0] else d) [0 ..< nz m8] (dz m8)\<rparr>)"

definition calc_tinfeas :: "qp_mem \<Rightarrow> qp_mem" where
  "calc_tinfeas m =
     (let m10 = m\<lparr>tinfeas := casadi_fill (tinfeas m) (nx m) 0\<rparr>;
          m11 = m10\<lparr>tinfeas := casadi_mv (nz_h m10) (sp_h m10) (dz m10) (tinfeas m10) False\<rparr>;
          m12 = m11\<lparr>tinfeas := casadi_mv (nz_a m11) (sp_a m11) (drop (nx m11) (dlam m11))
                                   (tinfeas m11) True\<rparr>
      in m12\<lparr>tinfeas := casadi_axpy (nx m12) 1 (dlam m12) (tinfeas m12)\<rparr>)"

definition casadi_qp_calc_step :: "prims \<Rightarrow> qp_mem \<Rightarrow> qp_mem \<times> int \<times> int \<times> int" where
  "casadi_qp_calc_step P m =
     casadi_qp_scale_step P (calc_tinfeas (calc_dz_tail (calc_dlam (calc_dz P m))))"

section \<open>Active-set change\<close>

definition lam_of_sign :: "qp_mem \<Rightarrow> int \<Rightarrow> scalar" where
  "lam_of_sign m sign = (if sign = 0 then 0 else if 0 < sign then dmin m else - dmin m)"

text \<open>
  \<^verbatim>\<open>casadi_qp_flip\<close> in its three parts: "try to restore regularity if possible",
  "improve primal or dual feasibility" and "if a constraint was added".
\<close>

definition flip_regularity ::
  "qp_mem \<Rightarrow> scalar \<Rightarrow> int \<Rightarrow> int \<Rightarrow> int \<Rightarrow> int \<Rightarrow> int \<times> int" where
  "flip_regularity m e index sign r_index r_sign =
     (if 0 \<le> r_index \<and> (r_sign \<noteq> 0 \<or> casadi_qp_du_check m (nat r_index) \<le> e)
      then (r_index, r_sign) else (index, sign))"

definition flip_improve :: "qp_mem \<Rightarrow> int \<Rightarrow> int \<Rightarrow> error + qp_mem \<times> int \<times> int" where
  "flip_improve m index sign =
     (if index = - 1 \<and> e_16 < tau m \<and> (0 \<le> ipr m \<or> 0 \<le> idu m) then
        (if du m \<le> du_to_pr m * pr m then
           (case casadi_qp_pr_index m sign of
              Inl err \<Rightarrow> Inl err
            | Inr is2 \<Rightarrow> Inr (m, is2))
         else casadi_qp_du_index m sign)
      else Inr (m, index, sign))"

definition flip_companion :: "qp_mem \<times> int \<times> int \<times> int \<Rightarrow> qp_mem" where
  "flip_companion fc =
     (let m = fst fc; r_index = fst (snd (snd fc)); r_sign = snd (snd (snd fc))
      in if fst (snd fc) \<noteq> 0 \<and> 0 \<le> r_index
         then m\<lparr>lam := (lam m)[nat r_index := lam_of_sign m r_sign]\<rparr>
         else m)"

definition flip_commit ::
  "prims \<Rightarrow> qp_mem \<Rightarrow> nat \<Rightarrow> int \<Rightarrow> int \<Rightarrow> int \<Rightarrow> scalar \<Rightarrow> qp_mem" where
  "flip_commit P m index sign r_index r_sign e =
     (let m4 = (if sing m = 0
                then flip_companion (casadi_qp_flip_check P m index sign r_index r_sign e)
                else m);
          m5 = m4\<lparr>lam := (lam m4)[index := lam_of_sign m4 sign]\<rparr>
      in casadi_qp_calc_dependent m5)"

definition casadi_qp_flip ::
  "prims \<Rightarrow> qp_mem \<Rightarrow> int \<Rightarrow> int \<Rightarrow> int \<Rightarrow> int \<Rightarrow> error + qp_mem \<times> int \<times> int" where
  "casadi_qp_flip P m index sign r_index r_sign =
     (let e = fmax (du_to_pr m * pr m) (du m);
          is1 = flip_regularity m e index sign r_index r_sign
      in case flip_improve m (fst is1) (snd is1) of
           Inl err \<Rightarrow> Inl err
         | Inr (m2, index2, sign2) \<Rightarrow>
             if 0 \<le> index2
             then Inr (flip_commit P m2 (nat index2) sign2 r_index r_sign e, - 2, sign2)
             else Inr (m2, index2, sign2))"

section \<open>The driver\<close>

text \<open>
  The members of \<^verbatim>\<open>ConicActiveSet\<close> that \<^verbatim>\<open>eval\<close> reads, the inputs and the
  outputs. \<^verbatim>\<open>check_inputs\<close> belongs to the base class: \<open>s_check_inputs\<close> says
  whether it accepts the four bound vectors. \<open>z_work\<close> is what the work vector
  holds behind the \<open>nx\<close> entries of \<^verbatim>\<open>z\<close> when \<^verbatim>\<open>eval\<close> starts: the
  initialization reads it before anything is written there.
\<close>

record solver =
  s_nx :: nat
  s_na :: nat
  s_A :: sparsity
  s_H :: sparsity
  s_AT :: sparsity
  s_kkt :: sparsity
  s_max_iter :: int
  s_du_to_pr :: scalar
  s_inputs_check :: bool
  s_check_inputs :: "vec \<Rightarrow> vec \<Rightarrow> vec \<Rightarrow> vec \<Rightarrow> bool"

record qp_in =
  arg_h :: vec
  arg_g :: vec
  arg_a :: vec
  arg_lba :: vec
  arg_uba :: vec
  arg_lbx :: vec
  arg_ubx :: vec
  arg_x0 :: vec
  arg_lam_x0 :: vec
  arg_lam_a0 :: vec
  z_work :: vec

datatype warning = MaxIterReached | SearchDirectionFailed

record qp_out =
  flag :: int
  res_x :: vec
  res_lam_x :: vec
  res_lam_a :: vec
  res_cost :: scalar
  warned :: "warning option"

text \<open>
  "Correct lam if needed, determine permitted signs": one pass of the loop over
  \<open>i\<close>. The state is the multipliers and the three masks.
\<close>

record signs =
  i_lam :: vec
  i_neverzero :: "bool list"
  i_neverupper :: "bool list"
  i_neverlower :: "bool list"

definition init_sign :: "scalar \<Rightarrow> vec \<Rightarrow> vec \<Rightarrow> vec \<Rightarrow> nat \<Rightarrow> signs \<Rightarrow> error + signs" where
  "init_sign dm lb ub zz i s =
     (let nzero = feq (lb ! i) (ub ! i);
          nupper = isinf (ub ! i);
          nlower = isinf (lb ! i);
          s1 = s\<lparr>i_neverzero := (i_neverzero s)[i := nzero],
                 i_neverupper := (i_neverupper s)[i := nupper],
                 i_neverlower := (i_neverlower s)[i := nlower]\<rparr>;
          l = i_lam s ! i
      in if \<not> (\<not> nzero \<or> \<not> nupper \<or> \<not> nlower) then Inl (NoSignPossible i)
         else if nzero \<and> feq l 0 then
           Inr (s1\<lparr>i_lam := (i_lam s)[i := (if nupper \<or> zz ! i - lb ! i \<le> ub ! i - zz ! i
                                              then - dm else dm)]\<rparr>)
         else if nupper \<and> 0 < l then
           Inr (s1\<lparr>i_lam := (i_lam s)[i := (if nzero then - dm else 0)]\<rparr>)
         else if nlower \<and> l < 0 then
           Inr (s1\<lparr>i_lam := (i_lam s)[i := (if nzero then dm else 0)]\<rparr>)
         else Inr s1)"

fun init_signs :: "scalar \<Rightarrow> vec \<Rightarrow> vec \<Rightarrow> vec \<Rightarrow> nat list \<Rightarrow> signs \<Rightarrow> error + signs" where
  "init_signs dm lb ub zz [] s = Inr s"
| "init_signs dm lb ub zz (i # is) s =
     (case init_sign dm lb ub zz i s of
        Inl err \<Rightarrow> Inl err
      | Inr s' \<Rightarrow> init_signs dm lb ub zz is s')"

text \<open>
  "Setup memory structure". The scratch arrays start as zeros: every routine writes
  them before it reads them.
\<close>

definition setup_mem :: "prims \<Rightarrow> solver \<Rightarrow> qp_in \<Rightarrow> vec \<Rightarrow> vec \<Rightarrow> vec \<Rightarrow> signs \<Rightarrow> qp_mem" where
  "setup_mem P S a zz lb ub s =
     (let n = s_nx S + s_na S
      in \<lparr>f = 0, nx = s_nx S, na = s_na S, nz = n,
          sp_a = s_A S, sp_h = s_H S, sp_at = s_AT S, sp_kkt = s_kkt S,
          nz_a = arg_a a, nz_h = arg_h a, g = arg_g a,
          z = zz, lbz = lb, ubz = ub,
          infeas = replicate (s_nx S) 0, tinfeas = replicate (s_nx S) 0,
          lam = i_lam s, w = replicate (2 * n) 0,
          dz = replicate n 0, dlam = replicate n 0, iw = replicate n 0,
          neverzero = i_neverzero s, neverlower = i_neverlower s,
          neverupper = i_neverupper s,
          nz_at = casadi_trans P (arg_a a) (s_A S) (s_AT S),
          nz_kkt = replicate (colind (s_kkt S) ! n) 0,
          beta = replicate n 0, nz_v = [], nz_r = [],
          dmin = DMIN, inf = PInf, du_to_pr = s_du_to_pr S,
          tau = 0, sing = 0, mina = 0, imina = 0,
          pr = 0, du = 0, ipr = 0, idu = 0\<rparr>)"

text \<open>
  The \<^verbatim>\<open>while (true)\<close> loop. It leaves with the flag, the warning it printed and
  the memory, the values of \<^verbatim>\<open>index\<close> and \<^verbatim>\<open>iter\<close> at the \<^verbatim>\<open>break\<close> with them.
\<close>

record loop_exit =
  x_flag :: int
  x_warned :: "warning option"
  x_index :: int
  x_iter :: int
  x_mem :: qp_mem

text \<open>
  One pass through the body of the loop: an error, a \<^verbatim>\<open>break\<close>, or the values of
  \<open>(m, index, sign, r_index, r_sign)\<close> for the next pass.
\<close>

definition qp_iteration ::
  "prims \<Rightarrow> int \<Rightarrow> qp_mem \<Rightarrow> int \<Rightarrow> int \<Rightarrow> int \<Rightarrow> int \<Rightarrow> int
     \<Rightarrow> error + (loop_exit + qp_mem \<times> int \<times> int \<times> int \<times> int)" where
  "qp_iteration P max_iter m index sign r_index r_sign iter =
     (case casadi_qp_flip P (casadi_qp_calc_dependent m) index sign r_index r_sign of
        Inl err \<Rightarrow> Inl err
      | Inr (m2, index2, sign2) \<Rightarrow>
          let m3 = casadi_qp_factorize P m2
          in if index2 = - 1 then
               Inr (Inl \<lparr>x_flag = 0, x_warned = None, x_index = index2,
                         x_iter = iter, x_mem = m3\<rparr>)
             else if max_iter \<le> iter then
               Inr (Inl \<lparr>x_flag = 1, x_warned = Some MaxIterReached, x_index = index2,
                         x_iter = iter, x_mem = m3\<rparr>)
             else
               (case casadi_qp_calc_step P m3 of
                  (m4, ret, r_index4, r_sign4) \<Rightarrow>
                    if ret \<noteq> 0 then
                      Inr (Inl \<lparr>x_flag = 1, x_warned = Some SearchDirectionFailed,
                                x_index = index2, x_iter = iter + 1, x_mem = m4\<rparr>)
                    else
                      Inr (Inr (fst (casadi_qp_linesearch m4),
                                fst (snd (casadi_qp_linesearch m4)),
                                snd (snd (casadi_qp_linesearch m4)), r_index4, r_sign4))))"

function qp_loop ::
  "prims \<Rightarrow> int \<Rightarrow> qp_mem \<Rightarrow> int \<Rightarrow> int \<Rightarrow> int \<Rightarrow> int \<Rightarrow> int \<Rightarrow> error + loop_exit" where
  "qp_loop P max_iter m index sign r_index r_sign iter =
     (case qp_iteration P max_iter m index sign r_index r_sign iter of
        Inl err \<Rightarrow> Inl err
      | Inr (Inl x) \<Rightarrow> Inr x
      | Inr (Inr (m5, index5, sign5, r_index4, r_sign4)) \<Rightarrow>
          qp_loop P max_iter m5 index5 sign5 r_index4 r_sign4 (iter + 1))"
  by pat_completeness auto
termination
proof (relation "measure (\<lambda>(P, max_iter, m, index, sign, r_index, r_sign, iter).
                            nat (max_iter - iter))")
  show "wf (measure (\<lambda>(P, max_iter, m, index, sign, r_index, r_sign, iter).
                       nat (max_iter - iter)))"
    by simp
next
  fix P max_iter m index sign r_index r_sign iter x2 x2a x y xa ya xb yb xc yc
  assume "qp_iteration P max_iter m index sign r_index r_sign iter = Inr x2"
    and "x2 = Inr x2a"
  then have "\<not> max_iter \<le> iter"
    unfolding qp_iteration_def
    by (auto simp: Let_def split: sum.splits prod.splits if_splits)
  then show "((P, max_iter, x, xa, xb, xc, yc, iter + 1),
              P, max_iter, m, index, sign, r_index, r_sign, iter)
             \<in> measure (\<lambda>(P, max_iter, m, index, sign, r_index, r_sign, iter).
                          nat (max_iter - iter))"
    by simp
qed

declare qp_loop.simps [simp del]

text \<open>
  \<open>pass P max_iter c c'\<close>: the loop started with the values \<open>c\<close> of
  \<open>(m, index, sign, r_index, r_sign, iter)\<close> comes to the head of its body with the
  values \<open>c'\<close>.
\<close>

inductive pass ::
  "prims \<Rightarrow> int \<Rightarrow> qp_mem \<times> int \<times> int \<times> int \<times> int \<times> int
     \<Rightarrow> qp_mem \<times> int \<times> int \<times> int \<times> int \<times> int \<Rightarrow> bool"
  for P :: prims and max_iter :: int and c :: "qp_mem \<times> int \<times> int \<times> int \<times> int \<times> int" where
  pass_first: "pass P max_iter c c"
| pass_next:
    "pass P max_iter c (m, index, sign, r_index, r_sign, iter) \<Longrightarrow>
     qp_iteration P max_iter m index sign r_index r_sign iter
       = Inr (Inr (m', index', sign', r_index', r_sign')) \<Longrightarrow>
     pass P max_iter c (m', index', sign', r_index', r_sign', iter + 1)"

text \<open>The stacked bounds and the initial guess, as \<^verbatim>\<open>eval\<close> copies them.\<close>

definition stack :: "nat \<Rightarrow> nat \<Rightarrow> vec \<Rightarrow> vec \<Rightarrow> vec" where
  "stack n k x y = casadi_copy x n (replicate n 0) @ casadi_copy y k (replicate k 0)"

definition eval_lbz :: "solver \<Rightarrow> qp_in \<Rightarrow> vec" where
  "eval_lbz S a = stack (s_nx S) (s_na S) (arg_lbx a) (arg_lba a)"

definition eval_ubz :: "solver \<Rightarrow> qp_in \<Rightarrow> vec" where
  "eval_ubz S a = stack (s_nx S) (s_na S) (arg_ubx a) (arg_uba a)"

definition eval_z :: "solver \<Rightarrow> qp_in \<Rightarrow> vec" where
  "eval_z S a = casadi_copy (arg_x0 a) (s_nx S) (replicate (s_nx S) 0) @ z_work a"

definition eval_lam :: "solver \<Rightarrow> qp_in \<Rightarrow> vec" where
  "eval_lam S a = stack (s_nx S) (s_na S) (arg_lam_x0 a) (arg_lam_a0 a)"

definition signs0 :: "nat \<Rightarrow> vec \<Rightarrow> signs" where
  "signs0 n l0 = \<lparr>i_lam = l0, i_neverzero = replicate n False,
                  i_neverupper = replicate n False, i_neverlower = replicate n False\<rparr>"

definition eval_init :: "solver \<Rightarrow> qp_in \<Rightarrow> error + signs" where
  "eval_init S a =
     init_signs DMIN (eval_lbz S a) (eval_ubz S a) (eval_z S a) [0 ..< s_nx S + s_na S]
       (signs0 (s_nx S + s_na S) (eval_lam S a))"

definition eval_out :: "solver \<Rightarrow> loop_exit \<Rightarrow> qp_out" where
  "eval_out S x =
     \<lparr>flag = x_flag x,
      res_x = casadi_copy (z (x_mem x)) (s_nx S) (replicate (s_nx S) 0),
      res_lam_x = casadi_copy (lam (x_mem x)) (s_nx S) (replicate (s_nx S) 0),
      res_lam_a = casadi_copy (drop (s_nx S) (lam (x_mem x))) (s_na S) (replicate (s_na S) 0),
      res_cost = f (x_mem x),
      warned = x_warned x\<rparr>"

definition eval_mem :: "prims \<Rightarrow> solver \<Rightarrow> qp_in \<Rightarrow> signs \<Rightarrow> qp_mem" where
  "eval_mem P S a s = setup_mem P S a (eval_z S a) (eval_lbz S a) (eval_ubz S a) s"

definition eval :: "prims \<Rightarrow> solver \<Rightarrow> qp_in \<Rightarrow> error + qp_out" where
  "eval P S a =
     (if s_inputs_check S
         \<and> \<not> s_check_inputs S (arg_lbx a) (arg_ubx a) (arg_lba a) (arg_uba a)
      then Inl InputsRejected
      else
        case eval_init S a of
          Inl err \<Rightarrow> Inl err
        | Inr s \<Rightarrow>
            (case qp_loop P (s_max_iter S) (eval_mem P S a s) (- 2) 0 (- 2) 0 0 of
               Inl err \<Rightarrow> Inl err
             | Inr x \<Rightarrow> Inr (eval_out S x)))"


section \<open>Closed forms\<close>

text \<open>
  What the loops of \<^verbatim>\<open>casadi_qp_calc_dependent\<close> compute, written without the
  memory: the clamp of one multiplier, the scans for the largest primal and dual
  violation, and the five quantities the routine writes.
\<close>

definition clamp_lam :: "scalar \<Rightarrow> scalar \<Rightarrow> scalar \<Rightarrow> scalar" where
  "clamp_lam dm l r =
     (if 0 < l then fmax (- r) dm else if l < 0 then fmin (- r) (- dm) else l)"

definition pr_scan :: "vec \<Rightarrow> vec \<Rightarrow> vec \<Rightarrow> nat \<Rightarrow> scalar \<times> int" where
  "pr_scan zz lb ub n =
     fold (\<lambda>i (p, ip).
        if ub ! i + p < zz ! i then (zz ! i - ub ! i, int i)
        else if zz ! i < lb ! i - p then (lb ! i - zz ! i, int i)
        else (p, ip)) [0 ..< n] (0, - 1)"

definition du_scan :: "vec \<Rightarrow> nat \<Rightarrow> scalar \<times> int" where
  "du_scan r n =
     fold (\<lambda>i (d, j).
        if d < r ! i then (r ! i, int i)
        else if r ! i < - d then (- (r ! i), int i)
        else (d, j)) [0 ..< n] (0, - 1)"

definition cd_f :: "qp_mem \<Rightarrow> scalar" where
  "cd_f m = casadi_bilin (nz_h m) (sp_h m) (z m) (z m) / Fin 2 + casadi_dot (nx m) (z m) (g m)"

definition cd_z :: "qp_mem \<Rightarrow> vec" where
  "cd_z m = take (nx m) (z m)
            @ casadi_mv (nz_a m) (sp_a m) (z m) (casadi_fill (drop (nx m) (z m)) (na m) 0) False"

definition cd_grad :: "qp_mem \<Rightarrow> vec" where
  "cd_grad m = casadi_mv (nz_a m) (sp_a m) (drop (nx m) (lam m))
                 (casadi_mv (nz_h m) (sp_h m) (cd_z m)
                    (casadi_copy (g m) (nx m) (infeas m)) False) True"

definition cd_lam :: "qp_mem \<Rightarrow> vec" where
  "cd_lam m = map (\<lambda>i. if i < nx m then clamp_lam (dmin m) (lam m ! i) (cd_grad m ! i)
                        else lam m ! i) [0 ..< length (lam m)]"

definition cd_infeas :: "qp_mem \<Rightarrow> vec" where
  "cd_infeas m = map (\<lambda>i. if i < nx m
                           then cd_grad m ! i + clamp_lam (dmin m) (lam m ! i) (cd_grad m ! i)
                           else cd_grad m ! i) [0 ..< length (infeas m)]"


section \<open>What the loop leaves unchanged\<close>

text \<open>
  \<open>cfg\<close> collects the fields of the memory that only \<^verbatim>\<open>eval\<close> writes, before the loop:
  the dimensions, \<open>dmin\<close>, \<open>du_to_pr\<close>, the permitted signs and the bounds.
  \<open>cfgl\<close> adds the multipliers, which the routines between \<^verbatim>\<open>casadi_qp_flip\<close> and
  \<^verbatim>\<open>casadi_qp_take_step\<close> only read. \<open>err_ok e i n\<close> says that an error \<open>e\<close> and its
  index \<open>i\<close> agree: either there is no violation (\<open>i = -1\<close>, \<open>e = 0\<close>), or \<open>i\<close>
  is the position of a positive violation among \<open>n\<close> entries.
\<close>

definition cfg ::
  "qp_mem \<Rightarrow> (nat \<times> nat \<times> nat) \<times> (scalar \<times> scalar) \<times> (bool list \<times> bool list \<times> bool list)
     \<times> vec \<times> vec" where
  "cfg m = ((nx m, na m, nz m), (dmin m, du_to_pr m),
            (neverzero m, neverlower m, neverupper m), lbz m, ubz m)"

definition cfgl ::
  "qp_mem \<Rightarrow> ((nat \<times> nat \<times> nat) \<times> (scalar \<times> scalar) \<times> (bool list \<times> bool list \<times> bool list)
     \<times> vec \<times> vec) \<times> vec" where
  "cfgl m = (cfg m, lam m)"

definition err_ok :: "scalar \<Rightarrow> int \<Rightarrow> nat \<Rightarrow> bool" where
  "err_ok e i n = ((i = - 1 \<and> e = 0) \<or> (0 \<le> i \<and> i < int n \<and> 0 < e))"

section \<open>Example problems\<close>

text \<open>
  Problems with one variable and no linear constraint. The KKT matrix is then the
  1-by-1 matrix \<open>[k]\<close>, and \<open>prims1\<close> is the QR factorization of such a matrix:
  \<open>R = [k]\<close>, which is singular when \<open>|k| < eps\<close> with the null vector \<open>[1]\<close>,
  and the solution of \<open>k x = b\<close> is \<open>b / k\<close>.
\<close>

definition prims1 :: prims where
  "prims1 = \<lparr>casadi_trans = (\<lambda>x sp_x sp_y. x),
             casadi_qr = (\<lambda>sp nzv. ([1], nzv, [0])),
             casadi_qr_solve = (\<lambda>b tr v r bt. [b ! 0 / r ! 0]),
             casadi_qr_singular = (\<lambda>r eps. (if \<bar>r ! 0\<bar> < eps then 1 else 0, \<bar>r ! 0\<bar>, 0)),
             casadi_qr_colcomb = (\<lambda>r imina k. [1])\<rparr>"

definition sp11 :: sparsity where "sp11 = \<lparr>nrow = 1, ncol = 1, colind = [0, 1], row = [0]\<rparr>"
definition sp01 :: sparsity where "sp01 = \<lparr>nrow = 0, ncol = 1, colind = [0, 0], row = []\<rparr>"
definition sp10 :: sparsity where "sp10 = \<lparr>nrow = 1, ncol = 0, colind = [0], row = []\<rparr>"

definition solver1 :: solver where
  "solver1 = \<lparr>s_nx = 1, s_na = 0, s_A = sp01, s_H = sp11, s_AT = sp10, s_kkt = sp11,
      s_max_iter = 1000, s_du_to_pr = Fin 1000, s_inputs_check = False,
      s_check_inputs = (\<lambda>lbx ubx lba uba. True)\<rparr>"

definition qp1 :: "real \<Rightarrow> real \<Rightarrow> scalar \<Rightarrow> scalar \<Rightarrow> qp_in" where
  "qp1 h gg lb ub = \<lparr>arg_h = [Fin h], arg_g = [Fin gg], arg_a = [], arg_lba = [], arg_uba = [],
     arg_lbx = [lb], arg_ubx = [ub], arg_x0 = [0], arg_lam_x0 = [0], arg_lam_a0 = [], z_work = []\<rparr>"

definition sp22 :: sparsity where
  "sp22 = \<lparr>nrow = 2, ncol = 2, colind = [0, 1, 2], row = [0, 1]\<rparr>"
definition sp02 :: sparsity where
  "sp02 = \<lparr>nrow = 0, ncol = 2, colind = [0, 0, 0], row = []\<rparr>"
definition sp20 :: sparsity where
  "sp20 = \<lparr>nrow = 2, ncol = 0, colind = [0], row = []\<rparr>"

definition solver2 :: solver where
  "solver2 = \<lparr>s_nx = 2, s_na = 0, s_A = sp02, s_H = sp22, s_AT = sp20, s_kkt = sp22,
      s_max_iter = 1000, s_du_to_pr = Fin 1000, s_inputs_check = False,
      s_check_inputs = (\<lambda>lbx ubx lba uba. True)\<rparr>"

definition qp_inverted :: qp_in where
  "qp_inverted = \<lparr>arg_h = [1, 1], arg_g = [0, 0], arg_a = [], arg_lba = [], arg_uba = [],
     arg_lbx = [1, 1], arg_ubx = [0, 0], arg_x0 = [0, 0], arg_lam_x0 = [0, 0],
     arg_lam_a0 = [], z_work = []\<rparr>"

text \<open>
  \<open>qp_fixed\<close>: minimize \<open>x * x / 2 - x\<close> with \<open>x\<close> fixed at 0 by equal bounds.
  \<open>qp_flat\<close>: the zero objective without bounds, which starts at a solution.
\<close>

definition qp_fixed :: qp_in where "qp_fixed = qp1 1 (- 1) 0 0"

definition qp_flat :: qp_in where "qp_flat = qp1 0 0 MInf PInf"

text \<open>\<open>qp_free\<close>: minimize \<open>x * x / 2 - x\<close> without bounds; the minimizer is 1.\<close>

definition qp_free :: qp_in where "qp_free = qp1 1 (- 1) MInf PInf"

text \<open>The memory of \<open>qp_fixed\<close> when the loop starts.\<close>

definition mem_fixed :: qp_mem where
  "mem_fixed = eval_mem prims1 solver1 qp_fixed
     \<lparr>i_lam = [- DMIN], i_neverzero = [True], i_neverupper = [False], i_neverlower = [False]\<rparr>"

text \<open>
  \<open>solver_cap\<close> is \<open>solver1\<close> with \<open>max_iter = 0\<close>. \<open>signs_free\<close> are the multipliers
  and permitted signs that \<^verbatim>\<open>eval\<close> computes for a variable without bounds, and
  \<open>mem_free\<close>, \<open>mem_flat\<close>, \<open>mem_cap\<close> the memory with which the loop starts.
\<close>

definition solver_cap :: solver where "solver_cap = solver1\<lparr>s_max_iter := 0\<rparr>"

definition signs_free :: signs where
  "signs_free = \<lparr>i_lam = [0], i_neverzero = [False], i_neverupper = [True],
                 i_neverlower = [True]\<rparr>"

definition mem_free :: qp_mem where "mem_free = eval_mem prims1 solver1 qp_free signs_free"
definition mem_flat :: qp_mem where "mem_flat = eval_mem prims1 solver1 qp_flat signs_free"
definition mem_cap :: qp_mem where "mem_cap = eval_mem prims1 solver_cap qp_free signs_free"

section \<open>Basic facts\<close>

lemma len_fill [simp]: "length (casadi_fill x n a) = length x" by (simp add: casadi_fill_def)
lemma len_copy [simp]: "length (casadi_copy x n y) = length y" by (simp add: casadi_copy_def)
lemma len_axpy [simp]: "length (casadi_axpy n a x y) = length y" by (simp add: casadi_axpy_def)
lemma len_scal [simp]: "length (casadi_scal n a x) = length x" by (simp add: casadi_scal_def)

lemma init_sign_err:
  "init_sign dm lb ub zz i s = Inl e \<longleftrightarrow>
     (e = NoSignPossible i \<and> feq (lb ! i) (ub ! i) \<and> isinf (ub ! i) \<and> isinf (lb ! i))"
  by (auto simp: init_sign_def Let_def)

lemma init_signs_err:
  "init_signs dm lb ub zz is s = Inl e \<longleftrightarrow>
     (\<exists>i \<in> set is. e = NoSignPossible i \<and> feq (lb ! i) (ub ! i) \<and> isinf (ub ! i) \<and> isinf (lb ! i)
        \<and> (\<forall>j \<in> set (takeWhile (\<lambda>j. j \<noteq> i) is). \<not> (feq (lb ! j) (ub ! j) \<and> isinf (ub ! j) \<and> isinf (lb ! j))))"
proof (induction "is" arbitrary: s)
  case Nil
  then show ?case by simp
next
  case (Cons i "is")
  show ?case
  proof (cases "init_sign dm lb ub zz i s")
    case (Inl e')
    then show ?thesis using init_sign_err[of dm lb ub zz i s e'] by auto
  next
    case (Inr s')
    have ne: "\<not> (feq (lb ! i) (ub ! i) \<and> isinf (ub ! i) \<and> isinf (lb ! i))"
      using Inr init_sign_err[of dm lb ub zz i s "NoSignPossible i"] by auto
    show ?thesis using Inr Cons.IH[of s'] ne by auto
  qed
qed

lemma pr_index_err: "casadi_qp_pr_index m s = Inl e \<Longrightarrow> e = OutOfBounds"
  by (auto simp: casadi_qp_pr_index_def split: if_splits)

lemma du_index_err: "casadi_qp_du_index m s = Inl e \<Longrightarrow> e = OutOfBounds"
  by (auto simp: casadi_qp_du_index_def Let_def split: if_splits)

lemma flip_improve_err: "flip_improve m i s = Inl e \<Longrightarrow> e = OutOfBounds"
  unfolding flip_improve_def
  by (auto split: if_splits sum.splits dest: pr_index_err du_index_err)

lemma flip_err: "casadi_qp_flip P m i s ri rs = Inl e \<Longrightarrow> e = OutOfBounds"
  unfolding casadi_qp_flip_def Let_def
  by (auto split: if_splits sum.splits prod.splits dest: flip_improve_err)

lemma init_signs_bad:
  "init_signs dm lb ub zz is s = Inl e \<Longrightarrow>
     \<exists>i \<in> set is. e = NoSignPossible i \<and> feq (lb ! i) (ub ! i) \<and> isinf (ub ! i) \<and> isinf (lb ! i)"
proof (induction "is" arbitrary: s)
  case Nil
  then show ?case by simp
next
  case (Cons i "is")
  show ?case
  proof (cases "init_sign dm lb ub zz i s")
    case (Inl e')
    then show ?thesis using Cons.prems init_sign_err[of dm lb ub zz i s e'] by auto
  next
    case (Inr s')
    then show ?thesis using Cons.prems Cons.IH[of s'] by auto
  qed
qed

lemma init_signs_fails:
  "\<exists>i \<in> set is. feq (lb ! i) (ub ! i) \<and> isinf (ub ! i) \<and> isinf (lb ! i) \<Longrightarrow>
     \<exists>i. init_signs dm lb ub zz is s = Inl (NoSignPossible i)"
proof (induction "is" arbitrary: s)
  case Nil
  then show ?case by simp
next
  case (Cons i "is")
  show ?case
  proof (cases "init_sign dm lb ub zz i s")
    case (Inl e')
    then show ?thesis using init_sign_err[of dm lb ub zz i s e'] by auto
  next
    case (Inr s')
    have ne: "\<not> (feq (lb ! i) (ub ! i) \<and> isinf (ub ! i) \<and> isinf (lb ! i))"
      using Inr init_sign_err[of dm lb ub zz i s "NoSignPossible i"] by auto
    show ?thesis using Inr Cons.IH[of s'] Cons.prems ne by auto
  qed
qed

lemma qp_iteration_err:
  "qp_iteration P mi m i s ri rs it = Inl e \<Longrightarrow> e = OutOfBounds"
  unfolding qp_iteration_def
  by (auto simp: Let_def split: sum.splits prod.splits if_splits dest: flip_err)

lemma qp_loop_err:
  "qp_loop P mi m i s ri rs it = Inl e \<Longrightarrow> e = OutOfBounds"
proof (induction P mi m i s ri rs it rule: qp_loop.induct)
  case (1 P max_iter m index sign r_index r_sign iter)
  show ?case
  proof (cases "qp_iteration P max_iter m index sign r_index r_sign iter")
    case (Inl e')
    then show ?thesis using "1.prems" qp_iteration_err[OF Inl]
      by (simp add: qp_loop.simps[of P max_iter m index sign r_index r_sign iter])
  next
    case (Inr y)
    show ?thesis
    proof (cases y)
      case (Inl x)
      then show ?thesis using "1.prems" Inr
        by (simp add: qp_loop.simps[of P max_iter m index sign r_index r_sign iter])
    next
      case y: (Inr c)
      obtain m5 i5 s5 r4 rs4 where c: "c = (m5, i5, s5, r4, rs4)" by (cases c) auto
      have "qp_loop P max_iter m5 i5 s5 r4 rs4 (iter + 1) = Inl e"
        using "1.prems" Inr y c
        by (simp add: qp_loop.simps[of P max_iter m index sign r_index r_sign iter])
      then show ?thesis using "1.IH"[OF Inr y] c by auto
    qed
  qed
qed


lemma init_sign_masks:
  assumes "init_sign dm lb ub zz i s = Inr s'"
  shows "i_neverzero s' = (i_neverzero s)[i := feq (lb ! i) (ub ! i)]
       \<and> i_neverupper s' = (i_neverupper s)[i := isinf (ub ! i)]
       \<and> i_neverlower s' = (i_neverlower s)[i := isinf (lb ! i)]"
  using assms by (auto simp: init_sign_def Let_def split: if_splits)

lemma init_signs_masks:
  assumes "init_signs dm lb ub zz is s = Inr s'"
  shows "length (i_neverzero s') = length (i_neverzero s)
       \<and> length (i_neverupper s') = length (i_neverupper s)
       \<and> length (i_neverlower s') = length (i_neverlower s)
       \<and> (\<forall>i. i \<in> set is \<longrightarrow> i < length (i_neverzero s) \<longrightarrow>
              i_neverzero s' ! i = feq (lb ! i) (ub ! i))
       \<and> (\<forall>i. i \<in> set is \<longrightarrow> i < length (i_neverupper s) \<longrightarrow>
              i_neverupper s' ! i = isinf (ub ! i))
       \<and> (\<forall>i. i \<in> set is \<longrightarrow> i < length (i_neverlower s) \<longrightarrow>
              i_neverlower s' ! i = isinf (lb ! i))
       \<and> (\<forall>i. i \<notin> set is \<longrightarrow> i_neverzero s' ! i = i_neverzero s ! i
              \<and> i_neverupper s' ! i = i_neverupper s ! i
              \<and> i_neverlower s' ! i = i_neverlower s ! i)"
  using assms
proof (induction "is" arbitrary: s)
  case Nil
  then show ?case by simp
next
  case (Cons j js)
  from Cons.prems obtain s1 where s1: "init_sign dm lb ub zz j s = Inr s1"
    and rest: "init_signs dm lb ub zz js s1 = Inr s'"
    by (auto split: sum.splits)
  note m = init_sign_masks[OF s1]
  note ih = Cons.IH[OF rest]
  show ?case
    using ih m by (auto simp: nth_list_update)
qed

lemma eval_no_sign_bad:
  assumes "eval P S a = Inl (NoSignPossible i)"
  shows "\<exists>i < s_nx S + s_na S. feq (eval_lbz S a ! i) (eval_ubz S a ! i)
                \<and> isinf (eval_ubz S a ! i) \<and> isinf (eval_lbz S a ! i)"
proof (cases "eval_init S a")
  case (Inl e)
  then have "\<exists>i \<in> set [0 ..< s_nx S + s_na S]. e = NoSignPossible i
       \<and> feq (eval_lbz S a ! i) (eval_ubz S a ! i)
       \<and> isinf (eval_ubz S a ! i) \<and> isinf (eval_lbz S a ! i)"
    unfolding eval_init_def by (rule init_signs_bad)
  then show ?thesis by auto
next
  case (Inr s)
  then have "qp_loop P (s_max_iter S)
                (eval_mem P S a s)
                (- 2) 0 (- 2) 0 0 = Inl (NoSignPossible i)"
    using assms unfolding eval_def by (auto split: sum.splits if_splits)
  then show ?thesis using qp_loop_err by blast
qed

lemmas example_defs = mem_fixed_def eval_mem_def setup_mem_def eval_z_def eval_lbz_def
  eval_ubz_def stack_def qp_fixed_def qp_flat_def qp1_def solver1_def prims1_def
  sp11_def sp01_def sp10_def

lemma DMIN_pos: "0 < DMIN"
  by (simp add: DMIN_def zero_scalar_def)

lemma upt_one [simp]: "[0 ..< Suc 0] = [0]"
  by simp

section \<open>Dependent quantities, in closed form\<close>

lemma lam_clamp_eq: "lam_clamp m i = clamp_lam (dmin m) (lam m ! i) (infeas m ! i)"
  by (simp add: lam_clamp_def clamp_lam_def)

lemma calc_lam_upto:
  "k \<le> length (lam m) \<Longrightarrow> k \<le> length (infeas m) \<Longrightarrow>
   fold (\<lambda>i m. let l = lam_clamp m i
                 in m\<lparr>lam := (lam m)[i := l], infeas := (infeas m)[i := infeas m ! i + l]\<rparr>)
     [0 ..< k] m
   = m\<lparr>lam := map (\<lambda>i. if i < k then clamp_lam (dmin m) (lam m ! i) (infeas m ! i)
                          else lam m ! i) [0 ..< length (lam m)],
        infeas := map (\<lambda>i. if i < k
                          then infeas m ! i + clamp_lam (dmin m) (lam m ! i) (infeas m ! i)
                          else infeas m ! i) [0 ..< length (infeas m)]\<rparr>"
proof (induction k)
  case 0
  then show ?case by (simp add: map_nth)
next
  case (Suc k)
  have a: "(map (\<lambda>i. if i < k then clamp_lam (dmin m) (lam m ! i) (infeas m ! i)
                          else lam m ! i) [0 ..< length (lam m)])
            [k := clamp_lam (dmin m) (lam m ! k) (infeas m ! k)]
         = map (\<lambda>i. if i < Suc k then clamp_lam (dmin m) (lam m ! i) (infeas m ! i)
                          else lam m ! i) [0 ..< length (lam m)]"
    by (rule nth_equalityI) (auto simp: nth_list_update less_Suc_eq)
  have b: "(map (\<lambda>i. if i < k
                          then infeas m ! i + clamp_lam (dmin m) (lam m ! i) (infeas m ! i)
                          else infeas m ! i) [0 ..< length (infeas m)])
            [k := infeas m ! k + clamp_lam (dmin m) (lam m ! k) (infeas m ! k)]
         = map (\<lambda>i. if i < Suc k
                          then infeas m ! i + clamp_lam (dmin m) (lam m ! i) (infeas m ! i)
                          else infeas m ! i) [0 ..< length (infeas m)]"
    by (rule nth_equalityI) (auto simp: nth_list_update less_Suc_eq)
  show ?case
    using Suc.prems Suc.IH a b
    by (simp add: lam_clamp_eq Let_def)
qed

lemma calc_lam_closed:
  assumes "nx m \<le> length (lam m)" and "nx m \<le> length (infeas m)"
  shows "calc_lam m =
     m\<lparr>lam := map (\<lambda>i. if i < nx m then clamp_lam (dmin m) (lam m ! i) (infeas m ! i)
                          else lam m ! i) [0 ..< length (lam m)],
        infeas := map (\<lambda>i. if i < nx m
                          then infeas m ! i + clamp_lam (dmin m) (lam m ! i) (infeas m ! i)
                          else infeas m ! i) [0 ..< length (infeas m)]\<rparr>"
  unfolding calc_lam_def using calc_lam_upto[OF assms] .

lemma pr_upto:
  "fold (\<lambda>i m.
        if ubz m ! i + pr m < z m ! i then m\<lparr>pr := z m ! i - ubz m ! i, ipr := int i\<rparr>
        else if z m ! i < lbz m ! i - pr m then m\<lparr>pr := lbz m ! i - z m ! i, ipr := int i\<rparr>
        else m) [0 ..< k] (m\<lparr>pr := p, ipr := ip\<rparr>)
   = m\<lparr>pr := fst (fold (\<lambda>i (p, ip).
        if ubz m ! i + p < z m ! i then (z m ! i - ubz m ! i, int i)
        else if z m ! i < lbz m ! i - p then (lbz m ! i - z m ! i, int i)
        else (p, ip)) [0 ..< k] (p, ip)),
       ipr := snd (fold (\<lambda>i (p, ip).
        if ubz m ! i + p < z m ! i then (z m ! i - ubz m ! i, int i)
        else if z m ! i < lbz m ! i - p then (lbz m ! i - z m ! i, int i)
        else (p, ip)) [0 ..< k] (p, ip))\<rparr>"
proof (induction k)
  case 0
  then show ?case by simp
next
  case (Suc k)
  show ?case
    by (simp add: Suc.IH split_beta)
qed

lemma pr_closed:
  "casadi_qp_pr m = m\<lparr>pr := fst (pr_scan (z m) (lbz m) (ubz m) (nz m)),
                       ipr := snd (pr_scan (z m) (lbz m) (ubz m) (nz m))\<rparr>"
  unfolding casadi_qp_pr_def pr_scan_def by (rule pr_upto)

lemma du_upto:
  "fold (\<lambda>i m.
        if du m < infeas m ! i then m\<lparr>du := infeas m ! i, idu := int i\<rparr>
        else if infeas m ! i < - du m then m\<lparr>du := - infeas m ! i, idu := int i\<rparr>
        else m) [0 ..< k] (m\<lparr>du := d, idu := j\<rparr>)
   = m\<lparr>du := fst (fold (\<lambda>i (d, j).
        if d < infeas m ! i then (infeas m ! i, int i)
        else if infeas m ! i < - d then (- (infeas m ! i), int i)
        else (d, j)) [0 ..< k] (d, j)),
       idu := snd (fold (\<lambda>i (d, j).
        if d < infeas m ! i then (infeas m ! i, int i)
        else if infeas m ! i < - d then (- (infeas m ! i), int i)
        else (d, j)) [0 ..< k] (d, j))\<rparr>"
proof (induction k)
  case 0
  then show ?case by simp
next
  case (Suc k)
  show ?case
    by (simp add: Suc.IH split_beta)
qed

lemma du_closed:
  "casadi_qp_du m = m\<lparr>du := fst (du_scan (infeas m) (nx m)),
                       idu := snd (du_scan (infeas m) (nx m))\<rparr>"
  unfolding casadi_qp_du_def du_scan_def by (rule du_upto)

lemma pos_not_nan: "0 < (a :: scalar) \<Longrightarrow> a \<noteq> NaN"
  by (cases a) (auto simp: zero_scalar_def)

lemma fmax_pos: "0 < dm \<Longrightarrow> 0 < fmax x dm"
  by (cases x; cases dm) (auto simp: fmax_def zero_scalar_def)

lemma fmax_ge: "0 < dm \<Longrightarrow> dm \<le> fmax x dm"
  by (cases x; cases dm) (auto simp: fmax_def zero_scalar_def)

lemma fmin_neg: "0 < dm \<Longrightarrow> fmin x (- dm) < 0"
  by (cases x; cases dm) (auto simp: fmin_def zero_scalar_def)

lemma fmin_le: "0 < dm \<Longrightarrow> fmin x (- dm) \<le> - dm"
  by (cases x; cases dm) (auto simp: fmin_def zero_scalar_def)

lemma scalar_less_irrefl: "\<not> (a :: scalar) < a"
  by (cases a) auto

lemma scalar_less_asym: "(a :: scalar) < b \<Longrightarrow> \<not> b < a"
  by (cases a; cases b) auto

lemma clamp_lam_pos: "0 < dm \<Longrightarrow> 0 < l \<Longrightarrow> 0 < clamp_lam dm l r \<and> dm \<le> clamp_lam dm l r"
  by (simp add: clamp_lam_def fmax_pos fmax_ge)

lemma clamp_lam_neg:
  "0 < dm \<Longrightarrow> l < 0 \<Longrightarrow> clamp_lam dm l r < 0 \<and> clamp_lam dm l r \<le> - dm"
  by (auto simp: clamp_lam_def fmin_neg fmin_le dest: scalar_less_asym)

lemma clamp_lam_idem: "0 < dm \<Longrightarrow> clamp_lam dm (clamp_lam dm l r) r = clamp_lam dm l r"
proof -
  assume dm: "0 < dm"
  consider "0 < l" | "\<not> 0 < l" "l < 0" | "\<not> 0 < l" "\<not> l < 0" by blast
  then show ?thesis
  proof cases
    case 1
    then have "0 < clamp_lam dm l r" using clamp_lam_pos[OF dm] by blast
    then show ?thesis using 1 by (simp add: clamp_lam_def)
  next
    case 2
    then have "clamp_lam dm l r < 0" using clamp_lam_neg[OF dm] by blast
    then show ?thesis using 2 by (auto simp: clamp_lam_def dest: scalar_less_asym)
  next
    case 3
    then show ?thesis by (simp add: clamp_lam_def)
  qed
qed

lemma clamp_lam_zero_iff: "0 < dm \<Longrightarrow> (clamp_lam dm l r = 0) = (l = 0)"
proof -
  assume dm: "0 < dm"
  consider "0 < l" | "\<not> 0 < l" "l < 0" | "\<not> 0 < l" "\<not> l < 0" by blast
  then show ?thesis
  proof cases
    case 1
    then have "0 < clamp_lam dm l r" using clamp_lam_pos[OF dm] by blast
    then show ?thesis using 1 scalar_less_irrefl[of 0] by auto
  next
    case 2
    then have "clamp_lam dm l r < 0" using clamp_lam_neg[OF dm] by blast
    then show ?thesis using 2 scalar_less_irrefl[of 0] by auto
  next
    case 3
    then show ?thesis by (simp add: clamp_lam_def)
  qed
qed

lemma length_fold_update:
  "(\<And>x l. length (h x l) = length l) \<Longrightarrow> length (fold h xs l) = length l"
  by (induction xs arbitrary: l) auto

lemma len_mv [simp]: "length (casadi_mv x sp y zz tr) = length zz"
  unfolding casadi_mv_def
  by (rule length_fold_update, rule length_fold_update) simp

lemma fold_cong_set:
  "(\<And>x s. x \<in> set xs \<Longrightarrow> h x s = k x s) \<Longrightarrow> fold h xs s = fold k xs s"
  by (induction xs arbitrary: s) auto

lemma mv_cong_False:
  assumes "\<And>cc. cc < ncol sp \<Longrightarrow> y ! cc = y' ! cc"
  shows "casadi_mv x sp y zz False = casadi_mv x sp y' zz False"
  unfolding casadi_mv_def
  by (intro fold_cong refl ext) (simp add: assms)

lemma mv_cong_True:
  assumes "\<And>cc el. cc < ncol sp \<Longrightarrow> el \<in> set (col_range sp cc) \<Longrightarrow>
              y ! (row sp ! el) = y' ! (row sp ! el)"
  shows "casadi_mv x sp y zz True = casadi_mv x sp y' zz True"
  unfolding casadi_mv_def
  by (intro fold_cong refl ext) (simp add: assms)

lemma bilin_cong:
  assumes "\<And>cc. cc < ncol sp \<Longrightarrow> y ! cc = y' ! cc"
    and "\<And>cc el. cc < ncol sp \<Longrightarrow> el \<in> set (col_range sp cc) \<Longrightarrow>
              x ! (row sp ! el) = x' ! (row sp ! el)"
  shows "casadi_bilin A sp x y = casadi_bilin A sp x' y'"
  unfolding casadi_bilin_def
  by (intro fold_cong refl ext) (simp add: assms)

lemma dot_cong:
  assumes "\<And>i. i < n \<Longrightarrow> x ! i = x' ! i"
  shows "casadi_dot n x y = casadi_dot n x' y"
  unfolding casadi_dot_def
  by (intro fold_cong refl ext) (simp add: assms)

lemma len_cd_grad [simp]: "length (cd_grad m) = length (infeas m)"
  by (simp add: cd_grad_def)

lemma len_cd_lam [simp]: "length (cd_lam m) = length (lam m)"
  by (simp add: cd_lam_def)

lemma len_cd_infeas [simp]: "length (cd_infeas m) = length (infeas m)"
  by (simp add: cd_infeas_def)

lemma gradient_stage:
  "calc_gradient (calc_z (calc_f m)) = m\<lparr>f := cd_f m, z := cd_z m, infeas := cd_grad m\<rparr>"
  by (simp add: calc_gradient_def calc_z_def calc_f_def cd_f_def cd_z_def cd_grad_def)

lemma cd_closed:
  assumes "nx m \<le> length (lam m)" and "nx m \<le> length (infeas m)"
  shows "casadi_qp_calc_dependent m =
     m\<lparr>f := cd_f m, z := cd_z m, infeas := cd_infeas m, lam := cd_lam m,
       pr := fst (pr_scan (cd_z m) (lbz m) (ubz m) (nz m)),
       ipr := snd (pr_scan (cd_z m) (lbz m) (ubz m) (nz m)),
       du := fst (du_scan (cd_infeas m) (nx m)),
       idu := snd (du_scan (cd_infeas m) (nx m))\<rparr>"
proof -
  let ?m3 = "m\<lparr>f := cd_f m, z := cd_z m, infeas := cd_grad m\<rparr>"
  have l: "nx ?m3 \<le> length (lam ?m3)" "nx ?m3 \<le> length (infeas ?m3)"
    using assms by simp_all
  have "calc_lam ?m3 = ?m3\<lparr>lam := cd_lam m, infeas := cd_infeas m\<rparr>"
    by (simp add: calc_lam_closed[OF l] cd_lam_def cd_infeas_def)
  then show ?thesis
    by (simp add: casadi_qp_calc_dependent_def gradient_stage pr_closed du_closed)
qed

lemma fill_cong_len:
  "length x = length y \<Longrightarrow> length x \<le> n \<Longrightarrow> casadi_fill x n a = casadi_fill y n a"
  by (simp add: casadi_fill_def)

lemma copy_cong_len:
  "length y = length y' \<Longrightarrow> length y \<le> n \<Longrightarrow> casadi_copy x n y = casadi_copy x n y'"
  by (simp add: casadi_copy_def)

lemma cd_z_head: "i < nx m \<Longrightarrow> nx m \<le> length (z m) \<Longrightarrow> cd_z m ! i = z m ! i"
  by (simp add: cd_z_def nth_append)

lemma cd_lam_tail: "nx m \<le> length (lam m) \<Longrightarrow> drop (nx m) (cd_lam m) = drop (nx m) (lam m)"
  by (rule nth_equalityI) (simp_all add: cd_lam_def)

lemma cd_fields [simp]:
  assumes "nx m \<le> length (lam m)" and "nx m \<le> length (infeas m)"
  shows "z (casadi_qp_calc_dependent m) = cd_z m"
    and "lam (casadi_qp_calc_dependent m) = cd_lam m"
    and "infeas (casadi_qp_calc_dependent m) = cd_infeas m"
    and "nx (casadi_qp_calc_dependent m) = nx m"
    and "na (casadi_qp_calc_dependent m) = na m"
    and "nz (casadi_qp_calc_dependent m) = nz m"
    and "dmin (casadi_qp_calc_dependent m) = dmin m"
    and "g (casadi_qp_calc_dependent m) = g m"
    and "nz_a (casadi_qp_calc_dependent m) = nz_a m"
    and "nz_h (casadi_qp_calc_dependent m) = nz_h m"
    and "sp_a (casadi_qp_calc_dependent m) = sp_a m"
    and "sp_h (casadi_qp_calc_dependent m) = sp_h m"
    and "lbz (casadi_qp_calc_dependent m) = lbz m"
    and "ubz (casadi_qp_calc_dependent m) = ubz m"
  by (simp_all add: cd_closed[OF assms])

section \<open>Frame lemmas and termination of the loop\<close>

lemma fold_keeps: "(\<And>x s. k (h x s) = k s) \<Longrightarrow> k (fold h xs s) = k s"
  by (induction xs arbitrary: s) auto

lemma cfgl_cfg: "cfgl m' = cfgl m \<Longrightarrow> cfg m' = cfg m"
  by (simp add: cfgl_def)

lemma cfgl_lam: "cfgl m' = cfgl m \<Longrightarrow> lam m' = lam m"
  by (simp add: cfgl_def)

lemma cfg_upd [simp]:
  "cfg (m\<lparr>f := v0\<rparr>) = cfg m"
  "cfg (m\<lparr>z := v1\<rparr>) = cfg m"
  "cfg (m\<lparr>infeas := v2\<rparr>) = cfg m"
  "cfg (m\<lparr>tinfeas := v3\<rparr>) = cfg m"
  "cfg (m\<lparr>lam := v4\<rparr>) = cfg m"
  "cfg (m\<lparr>w := v5\<rparr>) = cfg m"
  "cfg (m\<lparr>dz := v6\<rparr>) = cfg m"
  "cfg (m\<lparr>dlam := v7\<rparr>) = cfg m"
  "cfg (m\<lparr>iw := v8\<rparr>) = cfg m"
  "cfg (m\<lparr>nz_kkt := v9\<rparr>) = cfg m"
  "cfg (m\<lparr>beta := v10\<rparr>) = cfg m"
  "cfg (m\<lparr>nz_v := v11\<rparr>) = cfg m"
  "cfg (m\<lparr>nz_r := v12\<rparr>) = cfg m"
  "cfg (m\<lparr>tau := v13\<rparr>) = cfg m"
  "cfg (m\<lparr>sing := v14\<rparr>) = cfg m"
  "cfg (m\<lparr>mina := v15\<rparr>) = cfg m"
  "cfg (m\<lparr>imina := v16\<rparr>) = cfg m"
  "cfg (m\<lparr>pr := v17\<rparr>) = cfg m"
  "cfg (m\<lparr>du := v18\<rparr>) = cfg m"
  "cfg (m\<lparr>ipr := v19\<rparr>) = cfg m"
  "cfg (m\<lparr>idu := v20\<rparr>) = cfg m"
  by (simp_all add: cfg_def)

lemma cfgl_upd [simp]:
  "cfgl (m\<lparr>f := v0\<rparr>) = cfgl m"
  "cfgl (m\<lparr>z := v1\<rparr>) = cfgl m"
  "cfgl (m\<lparr>infeas := v2\<rparr>) = cfgl m"
  "cfgl (m\<lparr>tinfeas := v3\<rparr>) = cfgl m"
  "cfgl (m\<lparr>w := v4\<rparr>) = cfgl m"
  "cfgl (m\<lparr>dz := v5\<rparr>) = cfgl m"
  "cfgl (m\<lparr>dlam := v6\<rparr>) = cfgl m"
  "cfgl (m\<lparr>iw := v7\<rparr>) = cfgl m"
  "cfgl (m\<lparr>nz_kkt := v8\<rparr>) = cfgl m"
  "cfgl (m\<lparr>beta := v9\<rparr>) = cfgl m"
  "cfgl (m\<lparr>nz_v := v10\<rparr>) = cfgl m"
  "cfgl (m\<lparr>nz_r := v11\<rparr>) = cfgl m"
  "cfgl (m\<lparr>tau := v12\<rparr>) = cfgl m"
  "cfgl (m\<lparr>sing := v13\<rparr>) = cfgl m"
  "cfgl (m\<lparr>mina := v14\<rparr>) = cfgl m"
  "cfgl (m\<lparr>imina := v15\<rparr>) = cfgl m"
  "cfgl (m\<lparr>pr := v16\<rparr>) = cfgl m"
  "cfgl (m\<lparr>du := v17\<rparr>) = cfgl m"
  "cfgl (m\<lparr>ipr := v18\<rparr>) = cfgl m"
  "cfgl (m\<lparr>idu := v19\<rparr>) = cfgl m"
  by (simp_all add: cfgl_def cfg_def)

lemma cfg_pr [simp]: "cfg (casadi_qp_pr m) = cfg m"
  by (simp add: pr_closed)

lemma cfg_du [simp]: "cfg (casadi_qp_du m) = cfg m"
  by (simp add: du_closed)

lemma cfg_calc_lam [simp]: "cfg (calc_lam m) = cfg m"
  unfolding calc_lam_def
  by (rule fold_keeps) (simp add: Let_def)

lemma cfg_calc_dependent [simp]: "cfg (casadi_qp_calc_dependent m) = cfg m"
  by (simp add: casadi_qp_calc_dependent_def calc_gradient_def calc_z_def calc_f_def)

lemma cfgl_du_index:
  "casadi_qp_du_index m sign = Inr (m', i', s') \<Longrightarrow> cfgl m' = cfgl m"
  by (auto simp: casadi_qp_du_index_def Let_def split: if_splits)

lemma cfgl_flip_improve:
  "flip_improve m index sign = Inr (m', i', s') \<Longrightarrow> cfgl m' = cfgl m"
  by (auto simp: flip_improve_def split: if_splits sum.splits dest: cfgl_du_index)

lemma cfgl_flip_check [simp]:
  "cfgl (fst (casadi_qp_flip_check P m index sign r_index r_sign e)) = cfgl m"
  by (simp add: casadi_qp_flip_check_def Let_def)

lemma cfg_flip_companion [simp]: "cfg (flip_companion fc) = cfg (fst fc)"
  by (simp add: flip_companion_def Let_def)

lemma cfg_flip_commit [simp]: "cfg (flip_commit P m index sign r_index r_sign e) = cfg m"
  using cfgl_cfg[OF cfgl_flip_check[of P m index sign r_index r_sign e]]
  by (simp add: flip_commit_def Let_def)

lemma cfg_flip:
  "casadi_qp_flip P m index sign r_index r_sign = Inr (m', i', s') \<Longrightarrow> cfg m' = cfg m"
  by (auto simp: casadi_qp_flip_def Let_def split: sum.splits prod.splits if_splits
      dest!: cfgl_flip_improve cfgl_cfg)

lemma cfgl_kkt [simp]: "cfgl (casadi_qp_kkt m) = cfgl m"
proof -
  have "cfgl (casadi_qp_kkt m) = cfgl (m\<lparr>w := casadi_fill (w m) (nz m) 0\<rparr>)"
    unfolding casadi_qp_kkt_def
    by (rule fold_keeps) (simp add: Let_def)
  then show ?thesis by simp
qed

lemma cfgl_factorize [simp]: "cfgl (casadi_qp_factorize P m) = cfgl m"
  using cfgl_kkt[of m]
  by (simp add: casadi_qp_factorize_def Let_def)

lemma cfgl_calc_dz [simp]: "cfgl (calc_dz P m) = cfgl m"
  by (simp add: calc_dz_def)

lemma cfgl_calc_dlam [simp]: "cfgl (calc_dlam m) = cfgl m"
  by (simp add: calc_dlam_def Let_def)

lemma cfgl_calc_dz_tail [simp]: "cfgl (calc_dz_tail m) = cfgl m"
  by (simp add: calc_dz_tail_def Let_def)

lemma cfgl_calc_tinfeas [simp]: "cfgl (calc_tinfeas m) = cfgl m"
  by (simp add: calc_tinfeas_def Let_def)

lemma cfgl_scale_refactor [simp]: "cfgl (scale_refactor P m) = cfgl m"
  by (simp add: scale_refactor_def Let_def)

lemma cfgl_scale_search [simp]: "cfgl (fst (scale_search P m ok terr)) = cfgl m"
proof -
  have "cfgl (fst (scale_search P m ok terr)) = cfgl (fst (m, inf m, - 1 :: int, 0 :: int))"
    unfolding scale_search_def Let_def
    by (rule fold_keeps[where k = "\<lambda>s. cfgl (fst s)"]) (simp add: split_beta)
  then show ?thesis by simp
qed

lemma cfgl_scale_apply [simp]: "cfgl (fst (scale_apply mc)) = cfgl (fst mc)"
  by (simp add: scale_apply_def Let_def)

lemma cfgl_scale_step [simp]: "cfgl (fst (casadi_qp_scale_step P m)) = cfgl m"
  by (simp add: casadi_qp_scale_step_def Let_def)

lemma cfgl_calc_step [simp]: "cfgl (fst (casadi_qp_calc_step P m)) = cfgl m"
  by (simp add: casadi_qp_calc_step_def)

lemma cfgl_primal_blocking_loop:
  "cfgl (fst (primal_blocking_loop e is s)) = cfgl (fst s)"
proof (induction "is" arbitrary: s)
  case Nil
  then show ?case by simp
next
  case (Cons i "is")
  obtain m index sign where s: "s = (m, index, sign)" by (cases s) auto
  show ?case
    unfolding s
    by (simp add: Let_def Cons.IH)
qed

lemma cfgl_primal_blocking [simp]:
  "cfgl (fst (casadi_qp_primal_blocking m e index sign)) = cfgl m"
  by (simp add: casadi_qp_primal_blocking_def cfgl_primal_blocking_loop
      split: prod.splits bool.splits)

lemma cfgl_dual_blocking_scan [simp]:
  "cfgl (fst (dual_blocking_scan e tau_k dtau s)) = cfgl (fst s)"
  unfolding dual_blocking_scan_def
  by (rule fold_keeps[where k = "\<lambda>s. cfgl (fst s)"]) (simp add: split_beta Let_def)

lemma cfgl_tinfeas_drop [simp]: "cfgl (tinfeas_drop m i) = cfgl m"
proof -
  have "cfgl (fold (\<lambda>k m. m\<lparr>tinfeas := (tinfeas m)[row (sp_at m) ! k :=
                          tinfeas m ! (row (sp_at m) ! k) - nz_at m ! k * dlam m ! i]\<rparr>)
             (col_range (sp_at m) (i - nx m)) m) = cfgl m"
    by (rule fold_keeps) simp
  then show ?thesis by (simp add: tinfeas_drop_def)
qed

lemma cfgl_dual_blocking_loop:
  "cfgl (fst (dual_blocking_loop e js tau_k s)) = cfgl (fst s)"
proof (induction js arbitrary: tau_k s)
  case Nil
  then show ?case by simp
next
  case (Cons j js)
  show ?case
    by (simp add: Let_def Cons.IH)
qed

lemma cfgl_dual_blocking [simp]: "cfgl (fst (casadi_qp_dual_blocking m e)) = cfgl m"
  by (simp add: casadi_qp_dual_blocking_def Let_def cfgl_dual_blocking_loop)

lemma cfg_take_step_sign [simp]: "cfg (take_step_sign m i) = cfg m"
  by (simp add: take_step_sign_def Let_def)

lemma cfg_take_step [simp]: "cfg (casadi_qp_take_step m) = cfg m"
proof -
  let ?m1 = "fold (\<lambda>i m. m\<lparr>iw := (iw m)[i := (if 0 < lam m ! i then 1
                                                 else if lam m ! i < 0 then - 1 else 0)]\<rparr>)
                 [0 ..< nz m] m"
  have a: "cfgl ?m1 = cfgl m" by (rule fold_keeps) simp
  have "cfg (casadi_qp_take_step m) = cfg ?m1"
    unfolding casadi_qp_take_step_def Let_def
    by (subst fold_keeps[where k = cfg]) simp_all
  then show ?thesis using cfgl_cfg[OF a] by simp
qed

lemma cfg_linesearch [simp]: "cfg (fst (casadi_qp_linesearch m)) = cfg m"
proof -
  have "cfgl (fst (casadi_qp_dual_blocking
          (fst (casadi_qp_primal_blocking (m\<lparr>tau := 1\<rparr>)
             (fmax (pr (m\<lparr>tau := 1\<rparr>)) (du (m\<lparr>tau := 1\<rparr>) / du_to_pr (m\<lparr>tau := 1\<rparr>)))
             (- 1) 0))
          (fmax (pr (fst (casadi_qp_primal_blocking (m\<lparr>tau := 1\<rparr>)
             (fmax (pr (m\<lparr>tau := 1\<rparr>)) (du (m\<lparr>tau := 1\<rparr>) / du_to_pr (m\<lparr>tau := 1\<rparr>)))
             (- 1) 0)) * du_to_pr (fst (casadi_qp_primal_blocking (m\<lparr>tau := 1\<rparr>)
             (fmax (pr (m\<lparr>tau := 1\<rparr>)) (du (m\<lparr>tau := 1\<rparr>) / du_to_pr (m\<lparr>tau := 1\<rparr>)))
             (- 1) 0)))
             (du (fst (casadi_qp_primal_blocking (m\<lparr>tau := 1\<rparr>)
             (fmax (pr (m\<lparr>tau := 1\<rparr>)) (du (m\<lparr>tau := 1\<rparr>) / du_to_pr (m\<lparr>tau := 1\<rparr>)))
             (- 1) 0)))))) = cfgl m"
    by simp
  then show ?thesis
    by (simp add: casadi_qp_linesearch_def Let_def cfgl_def)
qed

lemma pr_step_pos:
  "p = 0 \<or> 0 < p \<Longrightarrow> (ub :: scalar) + p < zz \<Longrightarrow> 0 < zz - ub"
  by (cases ub; cases p; cases zz) (auto simp: zero_scalar_def minus_scalar_def)

lemma pr_step_pos2:
  "p = 0 \<or> 0 < p \<Longrightarrow> zz < (lb :: scalar) - p \<Longrightarrow> 0 < lb - zz"
  by (cases lb; cases p; cases zz) (auto simp: zero_scalar_def minus_scalar_def)

lemma du_step_pos: "d = 0 \<or> 0 < d \<Longrightarrow> (d :: scalar) < r \<Longrightarrow> 0 < r"
  by (cases d; cases r) (auto simp: zero_scalar_def)

lemma du_step_pos2: "d = 0 \<or> 0 < d \<Longrightarrow> r < - (d :: scalar) \<Longrightarrow> 0 < - r"
  by (cases d; cases r) (auto simp: zero_scalar_def)

lemma pr_scan_ok: "err_ok (fst (pr_scan zz lb ub n)) (snd (pr_scan zz lb ub n)) n"
proof (induction n)
  case 0
  then show ?case by (simp add: pr_scan_def err_ok_def)
next
  case (Suc n)
  obtain p ip where s: "pr_scan zz lb ub n = (p, ip)" by (cases "pr_scan zz lb ub n") auto
  have ok: "err_ok p ip n" using Suc s by simp
  then have p0: "p = 0 \<or> 0 < p" by (auto simp: err_ok_def)
  have st: "pr_scan zz lb ub (Suc n) =
        (if ub ! n + p < zz ! n then (zz ! n - ub ! n, int n)
         else if zz ! n < lb ! n - p then (lb ! n - zz ! n, int n)
         else (p, ip))"
    using s by (simp add: pr_scan_def)
  show ?case
    unfolding st using ok pr_step_pos[OF p0] pr_step_pos2[OF p0]
    by (auto simp: err_ok_def)
qed

lemma du_scan_ok: "err_ok (fst (du_scan r n)) (snd (du_scan r n)) n"
proof (induction n)
  case 0
  then show ?case by (simp add: du_scan_def err_ok_def)
next
  case (Suc n)
  obtain d j where s: "du_scan r n = (d, j)" by (cases "du_scan r n") auto
  have ok: "err_ok d j n" using Suc s by simp
  then have d0: "d = 0 \<or> 0 < d" by (auto simp: err_ok_def)
  have st: "du_scan r (Suc n) =
        (if d < r ! n then (r ! n, int n)
         else if r ! n < - d then (- (r ! n), int n)
         else (d, j))"
    using s by (simp add: du_scan_def)
  show ?case
    unfolding st using ok du_step_pos[OF d0] du_step_pos2[OF d0]
    by (auto simp: err_ok_def)
qed

lemma calc_dependent_errors:
  "err_ok (pr (casadi_qp_calc_dependent m)) (ipr (casadi_qp_calc_dependent m)) (nz m)
   \<and> err_ok (du (casadi_qp_calc_dependent m)) (idu (casadi_qp_calc_dependent m)) (nx m)"
proof -
  let ?m4 = "calc_lam (calc_gradient (calc_z (calc_f m)))"
  have nzx: "nz ?m4 = nz m" "nx ?m4 = nx m"
    using cfg_calc_lam[of "calc_gradient (calc_z (calc_f m))"]
    by (simp_all add: cfg_def calc_gradient_def calc_z_def calc_f_def)
  have c: "casadi_qp_calc_dependent m = casadi_qp_du (casadi_qp_pr ?m4)"
    by (simp add: casadi_qp_calc_dependent_def)
  show ?thesis
    unfolding c
    using pr_scan_ok[of "z ?m4" "lbz ?m4" "ubz ?m4" "nz ?m4"]
      du_scan_ok[of "infeas (casadi_qp_pr ?m4)" "nx (casadi_qp_pr ?m4)"]
    by (simp add: du_closed pr_closed nzx)
qed

lemma mult_pos_ge: "0 < D \<Longrightarrow> p = 0 \<or> 0 < p \<Longrightarrow> (0 :: scalar) \<le> Fin D * p"
  by (cases p) (auto simp: zero_scalar_def)

lemma le_zero_pos: "0 < (d :: scalar) \<Longrightarrow> \<not> d \<le> 0"
  by (cases d) (auto simp: zero_scalar_def)

lemma mult_zero: "Fin D * (0 :: scalar) = 0"
  by (simp add: zero_scalar_def)

lemma flip_improve_returns:
  assumes d: "du_to_pr m = Fin D" "0 < D"
    and p: "err_ok (pr m) (ipr m) (nz m)"
    and u: "err_ok (du m) (idu m) (nx m)"
  shows "\<exists>r. flip_improve m index sign = Inr r"
proof (cases "index = - 1 \<and> e_16 < tau m \<and> (0 \<le> ipr m \<or> 0 \<le> idu m)")
  case False
  then show ?thesis by (auto simp: flip_improve_def)
next
  case True
  show ?thesis
  proof (cases "du m \<le> du_to_pr m * pr m")
    case le: True
    have "0 \<le> ipr m"
    proof (rule ccontr)
      assume "\<not> 0 \<le> ipr m"
      then have p0: "pr m = 0" and i: "0 \<le> idu m" using p True by (auto simp: err_ok_def)
      then have "0 < du m" using u by (auto simp: err_ok_def)
      then show False using le p0 d le_zero_pos by (simp add: mult_zero)
    qed
    then have "\<not> (ipr m < 0 \<or> int (nz m) \<le> ipr m)" using p by (auto simp: err_ok_def)
    then show ?thesis using True le
      by (auto simp: flip_improve_def casadi_qp_pr_index_def)
  next
    case nle: False
    have "0 \<le> idu m"
    proof (rule ccontr)
      assume "\<not> 0 \<le> idu m"
      then have u0: "du m = 0" using u by (auto simp: err_ok_def)
      have "pr m = 0 \<or> 0 < pr m" using p by (auto simp: err_ok_def)
      then have "0 \<le> Fin D * pr m" using mult_pos_ge d by blast
      then show False using nle u0 d by simp
    qed
    then have "\<not> (idu m < 0 \<or> int (nx m) \<le> idu m)" using u by (auto simp: err_ok_def)
    then show ?thesis using True nle
      by (auto simp: flip_improve_def casadi_qp_du_index_def Let_def)
  qed
qed

lemma flip_returns:
  assumes "du_to_pr m = Fin D" and "0 < D"
  shows "\<exists>r. casadi_qp_flip P (casadi_qp_calc_dependent m) index sign r_index r_sign = Inr r"
proof -
  let ?c = "casadi_qp_calc_dependent m"
  have k: "cfg ?c = cfg m" by simp
  then have d: "du_to_pr ?c = Fin D" "nz ?c = nz m" "nx ?c = nx m"
    using assms by (simp_all add: cfg_def)
  have e: "err_ok (pr ?c) (ipr ?c) (nz ?c)" "err_ok (du ?c) (idu ?c) (nx ?c)"
    using calc_dependent_errors[of m] d by simp_all
  let ?e = "fmax (du_to_pr ?c * pr ?c) (du ?c)"
  let ?is = "flip_regularity ?c ?e index sign r_index r_sign"
  obtain r where r: "flip_improve ?c (fst ?is) (snd ?is) = Inr r"
    using flip_improve_returns[OF d(1) assms(2) e] by blast
  obtain m2 i2 s2 where r2: "r = (m2, i2, s2)" by (cases r) auto
  show ?thesis
    unfolding casadi_qp_flip_def Let_def r r2 by simp
qed

lemma qp_iteration_next_cfg:
  assumes "qp_iteration P max_iter m index sign r_index r_sign iter
             = Inr (Inr (m', index', sign', r_index', r_sign'))"
  shows "cfg m' = cfg m"
proof -
  from assms obtain m2 i2 s2
    where fl: "casadi_qp_flip P (casadi_qp_calc_dependent m) index sign r_index r_sign
                 = Inr (m2, i2, s2)"
      and m': "m' = fst (casadi_qp_linesearch
                           (fst (casadi_qp_calc_step P (casadi_qp_factorize P m2))))"
    unfolding qp_iteration_def
    by (auto simp: Let_def split: sum.splits prod.splits if_splits)
  have "cfg m2 = cfg m" using cfg_flip[OF fl] by simp
  moreover have "cfg m' = cfg m2"
    unfolding m' using cfgl_cfg[OF cfgl_calc_step] cfgl_cfg[OF cfgl_factorize] by simp
  ultimately show ?thesis by simp
qed

lemma qp_iteration_returns:
  assumes "du_to_pr m = Fin D" and "0 < D"
  shows "\<exists>y. qp_iteration P max_iter m index sign r_index r_sign iter = Inr y"
proof -
  obtain r where "casadi_qp_flip P (casadi_qp_calc_dependent m) index sign r_index r_sign = Inr r"
    using flip_returns[OF assms] by blast
  then show ?thesis
    unfolding qp_iteration_def
    by (auto simp: Let_def split: sum.splits prod.splits if_splits)
qed

lemma qp_loop_returns:
  "du_to_pr m = Fin D \<Longrightarrow> 0 < D \<Longrightarrow>
     \<exists>x. qp_loop P max_iter m index sign r_index r_sign iter = Inr x"
proof (induction P max_iter m index sign r_index r_sign iter rule: qp_loop.induct)
  case (1 P max_iter m index sign r_index r_sign iter)
  obtain y where y: "qp_iteration P max_iter m index sign r_index r_sign iter = Inr y"
    using qp_iteration_returns[OF "1.prems"] by blast
  show ?case
  proof (cases y)
    case (Inl x)
    then show ?thesis using y
      by (simp add: qp_loop.simps[of P max_iter m index sign r_index r_sign iter])
  next
    case (Inr c)
    obtain m5 i5 s5 r4 rs4 where c: "c = (m5, i5, s5, r4, rs4)" by (cases c) auto
    have "cfg m5 = cfg m" using qp_iteration_next_cfg y Inr c by blast
    then have d: "du_to_pr m5 = Fin D" using "1.prems" by (simp add: cfg_def)
    have "\<exists>x. qp_loop P max_iter m5 i5 s5 r4 rs4 (iter + 1) = Inr x"
      using "1.IH"[OF y Inr] c d "1.prems"(2) by auto
    then show ?thesis using y Inr c
      by (simp add: qp_loop.simps[of P max_iter m index sign r_index r_sign iter])
  qed
qed

lemma pass_loop:
  assumes "pass P max_iter (m0, i0, s0, ri0, rs0, it0) c"
  shows "(case c of (m, index, sign, r_index, r_sign, iter) \<Rightarrow>
            qp_loop P max_iter m index sign r_index r_sign iter)
         = qp_loop P max_iter m0 i0 s0 ri0 rs0 it0"
  using assms
proof (induction rule: pass.induct)
  case pass_first
  then show ?case by simp
next
  case (pass_next m index sign r_index r_sign iter m' index' sign' r_index' r_sign')
  then show ?case
    by (simp add: qp_loop.simps[of P max_iter m index sign r_index r_sign iter])
qed

lemma pass_prepend:
  assumes "pass P max_iter (m', index', sign', r_index', r_sign', iter + 1) c"
    and "qp_iteration P max_iter m index sign r_index r_sign iter
           = Inr (Inr (m', index', sign', r_index', r_sign'))"
  shows "pass P max_iter (m, index, sign, r_index, r_sign, iter) c"
  using assms
proof (induction rule: pass.induct)
  case pass_first
  show ?case
    using pass.pass_next[OF pass.pass_first pass_first] .
next
  case (pass_next m1 index1 sign1 r_index1 r_sign1 iter1 m2 index2 sign2 r_index2 r_sign2)
  show ?case
    using pass.pass_next[OF pass_next.IH[OF pass_next.prems] pass_next.hyps(2)] .
qed

lemma qp_loop_last_pass:
  "qp_loop P max_iter m index sign r_index r_sign iter = Inr x \<Longrightarrow>
     \<exists>m' index' sign' r_index' r_sign' iter'.
        pass P max_iter (m, index, sign, r_index, r_sign, iter)
          (m', index', sign', r_index', r_sign', iter')
        \<and> qp_iteration P max_iter m' index' sign' r_index' r_sign' iter' = Inr (Inl x)"
proof (induction P max_iter m index sign r_index r_sign iter rule: qp_loop.induct)
  case (1 P max_iter m index sign r_index r_sign iter)
  show ?case
  proof (cases "qp_iteration P max_iter m index sign r_index r_sign iter")
    case (Inl e)
    then show ?thesis using "1.prems"
      by (simp add: qp_loop.simps[of P max_iter m index sign r_index r_sign iter])
  next
    case (Inr y)
    show ?thesis
    proof (cases y)
      case (Inl x')
      then have "x' = x" using "1.prems" Inr
        by (simp add: qp_loop.simps[of P max_iter m index sign r_index r_sign iter])
      then have q: "qp_iteration P max_iter m index sign r_index r_sign iter = Inr (Inl x)"
        using Inr Inl by simp
      have p: "pass P max_iter (m, index, sign, r_index, r_sign, iter)
                 (m, index, sign, r_index, r_sign, iter)"
        by (rule pass.pass_first)
      show ?thesis
        by (intro exI conjI) (rule p, rule q)
    next
      case y: (Inr c)
      obtain m5 i5 s5 r4 rs4 where c: "c = (m5, i5, s5, r4, rs4)" by (cases c) auto
      have ql: "qp_loop P max_iter m5 i5 s5 r4 rs4 (iter + 1) = Inr x"
        using "1.prems" Inr y c
        by (simp add: qp_loop.simps[of P max_iter m index sign r_index r_sign iter])
      have "\<exists>m' index' sign' r_index' r_sign' iter'.
          pass P max_iter (m5, i5, s5, r4, rs4, iter + 1)
            (m', index', sign', r_index', r_sign', iter')
          \<and> qp_iteration P max_iter m' index' sign' r_index' r_sign' iter' = Inr (Inl x)"
        by (rule "1.IH"[OF Inr y c[symmetric] refl refl refl ql])
      then obtain m' index' sign' r_index' r_sign' iter'
        where p: "pass P max_iter (m5, i5, s5, r4, rs4, iter + 1)
                    (m', index', sign', r_index', r_sign', iter')"
          and q: "qp_iteration P max_iter m' index' sign' r_index' r_sign' iter' = Inr (Inl x)"
        by (elim exE conjE)
      have it: "qp_iteration P max_iter m index sign r_index r_sign iter
                  = Inr (Inr (m5, i5, s5, r4, rs4))"
        using Inr y c by simp
      have p': "pass P max_iter (m, index, sign, r_index, r_sign, iter)
              (m', index', sign', r_index', r_sign', iter')"
        by (rule pass_prepend[OF p it])
      show ?thesis
        by (intro exI conjI) (rule p', rule q)
    qed
  qed
qed

lemma qp_iteration_exit:
  assumes "qp_iteration P max_iter m index sign r_index r_sign iter = Inr (Inl x)"
  shows "(x_flag x = 0 \<longleftrightarrow> x_index x = - 1) \<and> (x_flag x = 0 \<or> x_flag x = 1)
       \<and> (x_flag x = 1 \<longleftrightarrow> x_warned x \<noteq> None)"
  using assms unfolding qp_iteration_def
  by (auto simp: Let_def split: sum.splits prod.splits if_splits)

lemma eval_mem_du_to_pr: "du_to_pr (eval_mem P S a s) = s_du_to_pr S"
  by (simp add: eval_mem_def setup_mem_def Let_def)

lemma eval_out_fields:
  "flag (eval_out S x) = x_flag x \<and> warned (eval_out S x) = x_warned x
   \<and> res_cost (eval_out S x) = f (x_mem x)
   \<and> length (res_x (eval_out S x)) = s_nx S
   \<and> (\<forall>i < s_nx S. res_x (eval_out S x) ! i = z (x_mem x) ! i)
   \<and> length (res_lam_x (eval_out S x)) = s_nx S
   \<and> (\<forall>i < s_nx S. res_lam_x (eval_out S x) ! i = lam (x_mem x) ! i)
   \<and> length (res_lam_a (eval_out S x)) = s_na S
   \<and> (\<forall>i < s_na S. res_lam_a (eval_out S x) ! i = drop (s_nx S) (lam (x_mem x)) ! i)"
  by (simp add: eval_out_def casadi_copy_def)

lemma qp_iteration_breaks:
  assumes "casadi_qp_flip P (casadi_qp_calc_dependent m) index sign r_index r_sign
             = Inr (m2, index2, sign2)"
  shows "(index2 = - 1 \<longrightarrow>
            qp_iteration P max_iter m index sign r_index r_sign iter =
              Inr (Inl \<lparr>x_flag = 0, x_warned = None, x_index = index2, x_iter = iter,
                        x_mem = casadi_qp_factorize P m2\<rparr>))
       \<and> (index2 \<noteq> - 1 \<and> max_iter \<le> iter \<longrightarrow>
            qp_iteration P max_iter m index sign r_index r_sign iter =
              Inr (Inl \<lparr>x_flag = 1, x_warned = Some MaxIterReached, x_index = index2,
                        x_iter = iter, x_mem = casadi_qp_factorize P m2\<rparr>))
       \<and> (index2 \<noteq> - 1 \<and> iter < max_iter
             \<and> fst (snd (casadi_qp_calc_step P (casadi_qp_factorize P m2))) \<noteq> 0 \<longrightarrow>
            qp_iteration P max_iter m index sign r_index r_sign iter =
              Inr (Inl \<lparr>x_flag = 1, x_warned = Some SearchDirectionFailed, x_index = index2,
                        x_iter = iter + 1,
                        x_mem = fst (casadi_qp_calc_step P (casadi_qp_factorize P m2))\<rparr>))"
  unfolding qp_iteration_def assms
  by (auto simp: Let_def split: prod.splits)

section \<open>The multipliers of the simple bounds\<close>

text \<open>
  C4. In \<^verbatim>\<open>casadi_qp_calc_dependent\<close>, for \<open>i < nx\<close>, with \<open>r\<close> the \<open>i\<close>-th entry of
  the gradient of the Lagrangian that the routine has just computed: a positive
  \<open>lam[i]\<close> becomes \<open>fmax(-r, dmin)\<close>, which is positive and at least \<open>dmin\<close>; a
  negative one becomes \<open>fmin(-r, -dmin)\<close>, negative and at most \<open>-dmin\<close>; a zero
  one stays; and \<open>infeas[i]\<close> becomes \<open>r\<close> plus the new \<open>lam[i]\<close>.
\<close>

theorem calc_dependent_lam:
  assumes "i < nx m" and "nx m \<le> length (lam m)" and "nx m \<le> length (infeas m)"
    and "0 < dmin m"
  shows "(let r = infeas (calc_gradient (calc_z (calc_f m))) ! i;
              l' = lam (casadi_qp_calc_dependent m) ! i
          in (0 < lam m ! i \<longrightarrow> l' = fmax (- r) (dmin m) \<and> 0 < l' \<and> dmin m \<le> l')
           \<and> (lam m ! i < 0 \<longrightarrow> l' = fmin (- r) (- dmin m) \<and> l' < 0 \<and> l' \<le> - dmin m)
           \<and> (lam m ! i = 0 \<longrightarrow> l' = lam m ! i)
           \<and> infeas (casadi_qp_calc_dependent m) ! i = r + l')"
proof -
  have r: "infeas (calc_gradient (calc_z (calc_f m))) ! i = cd_grad m ! i"
    by (simp add: gradient_stage)
  have l: "lam (casadi_qp_calc_dependent m) ! i
             = clamp_lam (dmin m) (lam m ! i) (cd_grad m ! i)"
    using assms by (simp add: cd_closed cd_lam_def)
  have f: "infeas (casadi_qp_calc_dependent m) ! i
             = cd_grad m ! i + clamp_lam (dmin m) (lam m ! i) (cd_grad m ! i)"
    using assms by (simp add: cd_closed cd_infeas_def)
  have p: "0 < lam m ! i \<Longrightarrow>
             clamp_lam (dmin m) (lam m ! i) (cd_grad m ! i) = fmax (- (cd_grad m ! i)) (dmin m)"
    by (simp add: clamp_lam_def)
  have n: "lam m ! i < 0 \<Longrightarrow>
             clamp_lam (dmin m) (lam m ! i) (cd_grad m ! i) = fmin (- (cd_grad m ! i)) (- dmin m)"
    by (auto simp: clamp_lam_def dest: scalar_less_asym)
  have z: "lam m ! i = 0 \<Longrightarrow> clamp_lam (dmin m) (lam m ! i) (cd_grad m ! i) = lam m ! i"
    using scalar_less_irrefl[of 0] by (simp add: clamp_lam_def)
  show ?thesis
    unfolding Let_def r l f
    using p n z clamp_lam_pos[OF assms(4), of "lam m ! i" "cd_grad m ! i"]
      clamp_lam_neg[OF assms(4), of "lam m ! i" "cd_grad m ! i"]
    by metis
qed

theorem calc_dependent_lam_witness:
  "lam (casadi_qp_calc_dependent mem_fixed) ! 0
     = fmin (- (infeas (calc_gradient (calc_z (calc_f mem_fixed))) ! 0)) (- dmin mem_fixed)
   \<and> lam (casadi_qp_calc_dependent mem_fixed) ! 0 \<le> - dmin mem_fixed"
proof -
  have h: "0 < nx mem_fixed" "nx mem_fixed \<le> length (lam mem_fixed)"
    "nx mem_fixed \<le> length (infeas mem_fixed)" "0 < dmin mem_fixed"
    by (simp_all add: example_defs DMIN_pos)
  have n: "lam mem_fixed ! 0 < 0"
    by (simp add: example_defs DMIN_def zero_scalar_def)
  show ?thesis
    using calc_dependent_lam[OF h] n unfolding Let_def by blast
qed


text \<open>
  C7. \<^verbatim>\<open>casadi_qp_calc_dependent\<close> is idempotent: on a memory whose arrays have
  their lengths and whose patterns fit the dimensions, a second run leaves the whole
  memory as the first run left it, and so \<open>f\<close>, \<open>z\<close>, \<open>infeas\<close>, \<open>lam\<close>, \<open>pr\<close>,
  \<open>ipr\<close>, \<open>du\<close> and \<open>idu\<close>.
\<close>

theorem calc_dependent_idempotent:
  assumes dm: "0 < dmin m"
    and lz: "length (z m) = nx m + na m"
    and ll: "length (lam m) = nx m + na m"
    and li: "length (infeas m) = nx m"
    and ca: "ncol (sp_a m) = nx m"
    and ch: "ncol (sp_h m) = nx m"
    and rh: "\<forall>cc < nx m. \<forall>el \<in> set (col_range (sp_h m) cc). row (sp_h m) ! el < nx m"
  shows "casadi_qp_calc_dependent (casadi_qp_calc_dependent m) = casadi_qp_calc_dependent m"
proof -
  let ?c = "casadi_qp_calc_dependent m"
  have h: "nx m \<le> length (lam m)" "nx m \<le> length (infeas m)"
    using ll li by simp_all
  note cf = cd_fields[OF h]
  have hc: "nx ?c \<le> length (lam ?c)" "nx ?c \<le> length (infeas ?c)"
    using h by (simp_all add: cf)
  have zhead: "\<And>i. i < nx m \<Longrightarrow> cd_z m ! i = z m ! i"
    using cd_z_head lz by simp
  have ez: "cd_z ?c = cd_z m"
  proof -
    have a: "take (nx m) (cd_z m) = take (nx m) (z m)"
      using lz by (simp add: cd_z_def)
    have b: "casadi_fill (drop (nx m) (cd_z m)) (na m) 0
               = casadi_fill (drop (nx m) (z m)) (na m) 0"
      using lz by (intro fill_cong_len) (simp_all add: cd_z_def)
    have c: "casadi_mv (nz_a m) (sp_a m) (cd_z m) (casadi_fill (drop (nx m) (z m)) (na m) 0) False
           = casadi_mv (nz_a m) (sp_a m) (z m) (casadi_fill (drop (nx m) (z m)) (na m) 0) False"
      by (rule mv_cong_False) (simp add: ca zhead)
    show ?thesis
      unfolding cd_z_def[of ?c] cf a b c by (simp add: cd_z_def)
  qed
  have ef: "cd_f ?c = cd_f m"
  proof -
    have a: "casadi_bilin (nz_h m) (sp_h m) (cd_z m) (cd_z m)
               = casadi_bilin (nz_h m) (sp_h m) (z m) (z m)"
      using rh by (intro bilin_cong) (simp_all add: ch zhead)
    have b: "casadi_dot (nx m) (cd_z m) (g m) = casadi_dot (nx m) (z m) (g m)"
      by (rule dot_cong) (simp add: zhead)
    show ?thesis
      unfolding cd_f_def[of ?c] cf a b by (simp add: cd_f_def)
  qed
  have eg: "cd_grad ?c = cd_grad m"
  proof -
    have a: "drop (nx m) (cd_lam m) = drop (nx m) (lam m)"
      using cd_lam_tail h by simp
    have b: "casadi_copy (g m) (nx m) (cd_infeas m) = casadi_copy (g m) (nx m) (infeas m)"
      using li by (intro copy_cong_len) simp_all
    show ?thesis
      unfolding cd_grad_def[of ?c] cf ez a b by (simp add: cd_grad_def)
  qed
  have el: "cd_lam ?c = cd_lam m"
    unfolding cd_lam_def[of ?c] cf eg
    by (rule nth_equalityI) (simp_all add: cd_lam_def clamp_lam_idem[OF dm])
  have ei: "cd_infeas ?c = cd_infeas m"
    unfolding cd_infeas_def[of ?c] cf eg
    by (rule nth_equalityI) (simp_all add: cd_infeas_def cd_lam_def clamp_lam_idem[OF dm] ll)
  show ?thesis
    unfolding cd_closed[OF hc] ef ez eg el ei cf
    by (simp add: cd_closed[OF h])
qed

theorem calc_dependent_idempotent_witness:
  "casadi_qp_calc_dependent (casadi_qp_calc_dependent mem_fixed)
     = casadi_qp_calc_dependent mem_fixed"
proof -
  have h: "0 < dmin mem_fixed"
    "length (z mem_fixed) = nx mem_fixed + na mem_fixed"
    "length (lam mem_fixed) = nx mem_fixed + na mem_fixed"
    "length (infeas mem_fixed) = nx mem_fixed"
    "ncol (sp_a mem_fixed) = nx mem_fixed"
    "ncol (sp_h mem_fixed) = nx mem_fixed"
    by (simp_all add: example_defs DMIN_pos casadi_copy_def)
  have r: "\<forall>cc < nx mem_fixed. \<forall>el \<in> set (col_range (sp_h mem_fixed) cc).
             row (sp_h mem_fixed) ! el < nx mem_fixed"
    by (simp add: example_defs col_range_def)
  show ?thesis
    using calc_dependent_idempotent[OF h r] .
qed
section \<open>How the driver returns\<close>

lemma init_free: "eval_init solver1 qp_free = Inr signs_free" by code_simp
lemma init_flat: "eval_init solver1 qp_flat = Inr signs_free" by code_simp
lemma init_cap: "eval_init solver_cap qp_free = Inr signs_free" by code_simp

lemma flat_first:
  "(case casadi_qp_flip prims1 (casadi_qp_calc_dependent mem_flat) (- 2) 0 (- 2) 0 of
      Inl e \<Rightarrow> False
    | Inr (m2, index2, sign2) \<Rightarrow> index2 = - 2
        \<and> fst (snd (casadi_qp_calc_step prims1 (casadi_qp_factorize prims1 m2))) \<noteq> 0)"
  by code_simp

lemma cap_first:
  "(case casadi_qp_flip prims1 (casadi_qp_calc_dependent mem_cap) (- 2) 0 (- 2) 0 of
      Inl e \<Rightarrow> False
    | Inr (m2, index2, sign2) \<Rightarrow> index2 = - 2)"
  by code_simp

lemma free_second:
  "(case qp_iteration prims1 (s_max_iter solver1) mem_free (- 2) 0 (- 2) 0 0 of
      Inr (Inr (m, index, sign, r_index, r_sign)) \<Rightarrow>
        (case casadi_qp_flip prims1 (casadi_qp_calc_dependent m) index sign r_index r_sign of
           Inl e \<Rightarrow> False
         | Inr (m2, index2, sign2) \<Rightarrow> index2 = - 1)
    | _ \<Rightarrow> False)"
  by code_simp


lemma flip_caseD:
  "(case x of Inl e \<Rightarrow> False | Inr (m2, index2, sign2) \<Rightarrow> Q m2 index2 sign2) \<Longrightarrow>
     \<exists>m2 index2 sign2. x = Inr (m2, index2, sign2) \<and> Q m2 index2 sign2"
  by (cases x) auto

lemma iteration_caseD:
  "(case x of Inr (Inr (m, index, sign, r_index, r_sign)) \<Rightarrow> Q m index sign r_index r_sign
            | _ \<Rightarrow> False) \<Longrightarrow>
     \<exists>m index sign r_index r_sign.
        x = Inr (Inr (m, index, sign, r_index, r_sign)) \<and> Q m index sign r_index r_sign"
  by (cases x) (auto split: sum.splits)



section \<open>Rejected problems\<close>

text \<open>
  C8. When the generic input check lets the bounds through, \<^verbatim>\<open>eval\<close> fails with
  "No sign possible" exactly when some index \<open>i\<close> has \<open>neverzero\<close>, \<open>neverupper\<close>
  and \<open>neverlower\<close> all set, that is \<open>lbz[i] == ubz[i]\<close> with both infinite. The
  error comes from the initialization, before the loop. When there is no such index,
  the initialization completes and \<^verbatim>\<open>eval\<close> is what the loop makes of the memory it
  sets up.
\<close>

theorem eval_no_sign_possible:
  assumes "s_inputs_check S \<longrightarrow> s_check_inputs S (arg_lbx a) (arg_ubx a) (arg_lba a) (arg_uba a)"
  shows "((\<exists>i. eval P S a = Inl (NoSignPossible i)) \<longleftrightarrow>
            (\<exists>i < s_nx S + s_na S. feq (eval_lbz S a ! i) (eval_ubz S a ! i)
                \<and> isinf (eval_ubz S a ! i) \<and> isinf (eval_lbz S a ! i)))
      \<and> ((\<forall>i < s_nx S + s_na S. \<not> (feq (eval_lbz S a ! i) (eval_ubz S a ! i)
                \<and> isinf (eval_ubz S a ! i) \<and> isinf (eval_lbz S a ! i))) \<longrightarrow>
           (\<exists>s. eval_init S a = Inr s
               \<and> eval P S a =
                   (case qp_loop P (s_max_iter S)
                           (eval_mem P S a s)
                           (- 2) 0 (- 2) 0 0 of
                      Inl err \<Rightarrow> Inl err
                    | Inr x \<Rightarrow> Inr (eval_out S x))))"
proof -
  let ?n = "s_nx S + s_na S"
  let ?bad = "\<lambda>i. feq (eval_lbz S a ! i) (eval_ubz S a ! i)
                \<and> isinf (eval_ubz S a ! i) \<and> isinf (eval_lbz S a ! i)"
  have chk: "\<not> (s_inputs_check S
         \<and> \<not> s_check_inputs S (arg_lbx a) (arg_ubx a) (arg_lba a) (arg_uba a))"
    using assms by simp
  have ev: "eval P S a = (case eval_init S a of
          Inl err \<Rightarrow> Inl err
        | Inr s \<Rightarrow>
            (case qp_loop P (s_max_iter S)
                    (eval_mem P S a s)
                    (- 2) 0 (- 2) 0 0 of
               Inl err \<Rightarrow> Inl err
             | Inr x \<Rightarrow> Inr (eval_out S x)))"
    unfolding eval_def using chk by auto
  have a1: "(\<exists>i. eval P S a = Inl (NoSignPossible i)) \<Longrightarrow> \<exists>i < ?n. ?bad i"
  proof -
    assume "\<exists>i. eval P S a = Inl (NoSignPossible i)"
    then obtain i where i: "eval P S a = Inl (NoSignPossible i)" by blast
    show ?thesis
    proof (cases "eval_init S a")
      case (Inl e)
      then have "\<exists>i \<in> set [0 ..< ?n]. e = NoSignPossible i \<and> ?bad i"
        unfolding eval_init_def by (rule init_signs_bad)
      then show ?thesis by auto
    next
      case (Inr s)
      then have "qp_loop P (s_max_iter S)
                    (eval_mem P S a s)
                    (- 2) 0 (- 2) 0 0 = Inl (NoSignPossible i)"
        using i ev by (simp split: sum.splits)
      then show ?thesis using qp_loop_err by blast
    qed
  qed
  have a2: "\<exists>i < ?n. ?bad i \<Longrightarrow> \<exists>i. eval P S a = Inl (NoSignPossible i)"
  proof -
    assume "\<exists>i < ?n. ?bad i"
    then have "\<exists>i \<in> set [0 ..< ?n]. ?bad i" by auto
    then have "\<exists>i. eval_init S a = Inl (NoSignPossible i)"
      unfolding eval_init_def by (rule init_signs_fails)
    then show ?thesis using ev by auto
  qed
  have a3: "\<forall>i < ?n. \<not> ?bad i \<Longrightarrow> \<exists>s. eval_init S a = Inr s"
  proof -
    assume nb: "\<forall>i < ?n. \<not> ?bad i"
    show ?thesis
    proof (cases "eval_init S a")
      case (Inl e)
      then have "\<exists>i \<in> set [0 ..< ?n]. e = NoSignPossible i \<and> ?bad i"
        unfolding eval_init_def by (rule init_signs_bad)
      then show ?thesis using nb by auto
    next
      case (Inr s)
      then show ?thesis by simp
    qed
  qed
  show ?thesis
  proof (intro conjI iffI impI)
    assume "\<exists>i. eval P S a = Inl (NoSignPossible i)"
    then show "\<exists>i < ?n. ?bad i" by (rule a1)
  next
    assume "\<exists>i < ?n. ?bad i"
    then show "\<exists>i. eval P S a = Inl (NoSignPossible i)" by (rule a2)
  next
    assume "\<forall>i < ?n. \<not> ?bad i"
    then obtain s where s: "eval_init S a = Inr s" using a3 by blast
    show "\<exists>s. eval_init S a = Inr s
               \<and> eval P S a =
                   (case qp_loop P (s_max_iter S)
                           (eval_mem P S a s)
                           (- 2) 0 (- 2) 0 0 of
                      Inl err \<Rightarrow> Inl err
                    | Inr x \<Rightarrow> Inr (eval_out S x))"
      using s ev by simp
  qed
qed

theorem eval_no_sign_possible_witness:
  "\<exists>i. eval prims1 solver1 (qp1 1 0 PInf PInf) = Inl (NoSignPossible i)"
proof -
  have h: "s_inputs_check solver1 \<longrightarrow>
      s_check_inputs solver1 (arg_lbx (qp1 1 0 PInf PInf)) (arg_ubx (qp1 1 0 PInf PInf))
        (arg_lba (qp1 1 0 PInf PInf)) (arg_uba (qp1 1 0 PInf PInf))"
    by (simp add: solver1_def)
  have b: "\<exists>i < s_nx solver1 + s_na solver1.
      feq (eval_lbz solver1 (qp1 1 0 PInf PInf) ! i) (eval_ubz solver1 (qp1 1 0 PInf PInf) ! i)
        \<and> isinf (eval_ubz solver1 (qp1 1 0 PInf PInf) ! i)
        \<and> isinf (eval_lbz solver1 (qp1 1 0 PInf PInf) ! i)"
    by (simp add: solver1_def qp1_def eval_lbz_def eval_ubz_def stack_def casadi_copy_def
        feq_def isinf_def)
  show ?thesis
    using eval_no_sign_possible[OF h, of prims1] b by blast
qed


text \<open>
  C9, as stated, fails: for \<open>lbx = (1, 1)\<close>, \<open>ubx = (0, 0)\<close> the initialization
  does not report "No sign possible". It returns with every mask cleared, since
  \<open>neverzero\<close> only tests \<open>lbz[i] == ubz[i]\<close>.
\<close>

theorem inverted_bounds_counterexample:
  "eval_init solver2 qp_inverted =
     Inr \<lparr>i_lam = [0, 0], i_neverzero = [False, False],
          i_neverupper = [False, False], i_neverlower = [False, False]\<rparr>"
  by code_simp



text \<open>
  C9, amended. For two variables, no linear constraint, \<open>lbx = (1, 1)\<close> and
  \<open>ubx = (0, 0)\<close>, \<^verbatim>\<open>eval\<close> never reports "No sign possible": the initialization
  completes with \<open>neverzero\<close>, \<open>neverupper\<close> and \<open>neverlower\<close> false at both
  indices. Lower bounds above upper bounds are not what the permitted-sign test
  looks for.
\<close>

theorem eval_inverted_bounds:
  assumes "s_nx S = 2" and "s_na S = 0"
    and "arg_lbx a = [1, 1]" and "arg_ubx a = [0, 0]"
  shows "(\<forall>i. eval P S a \<noteq> Inl (NoSignPossible i))
       \<and> (\<exists>s. eval_init S a = Inr s \<and> i_neverzero s = [False, False]
              \<and> i_neverupper s = [False, False] \<and> i_neverlower s = [False, False])"
proof -
  have lb: "eval_lbz S a = [1, 1]" and ub: "eval_ubz S a = [0, 0]"
    using assms by (simp_all add: eval_lbz_def eval_ubz_def stack_def casadi_copy_def
        upt_rec numeral_2_eq_2)
  have nb: "\<not> (\<exists>i < s_nx S + s_na S. feq (eval_lbz S a ! i) (eval_ubz S a ! i)
                \<and> isinf (eval_ubz S a ! i) \<and> isinf (eval_lbz S a ! i))"
    using assms lb ub
    by (auto simp: isinf_def zero_scalar_def one_scalar_def dest!: less_2_cases)
  have p1: "\<forall>i. eval P S a \<noteq> Inl (NoSignPossible i)"
    using nb eval_no_sign_bad by blast
  obtain s where s: "eval_init S a = Inr s"
  proof (cases "eval_init S a")
    case (Inl e)
    then have "\<exists>i \<in> set [0 ..< s_nx S + s_na S]. e = NoSignPossible i
       \<and> feq (eval_lbz S a ! i) (eval_ubz S a ! i)
       \<and> isinf (eval_ubz S a ! i) \<and> isinf (eval_lbz S a ! i)"
      unfolding eval_init_def by (rule init_signs_bad)
    then show ?thesis using nb by auto
  next
    case (Inr s)
    then show ?thesis using that by simp
  qed
  note mk = init_signs_masks[OF s[unfolded eval_init_def]]
  have l: "length (i_neverzero s) = 2" "length (i_neverupper s) = 2" "length (i_neverlower s) = 2"
    using mk assms by (simp_all add: signs0_def)
  have v: "\<forall>i < 2. i_neverzero s ! i = False \<and> i_neverupper s ! i = False
              \<and> i_neverlower s ! i = False"
  proof (intro allI impI)
    fix i :: nat assume i: "i < 2"
    then have "i \<in> set [0 ..< s_nx S + s_na S]" using assms by simp
    moreover have "i = 0 \<or> i = 1" using i by auto
    ultimately show "i_neverzero s ! i = False \<and> i_neverupper s ! i = False
              \<and> i_neverlower s ! i = False"
      using mk i assms lb ub
      by (auto simp: signs0_def feq_def isinf_def zero_scalar_def one_scalar_def)
  qed
  have eq2: "\<And>xs :: bool list. length xs = 2 \<Longrightarrow> \<forall>i < 2. xs ! i = False \<Longrightarrow> xs = [False, False]"
    by (auto simp: list_eq_iff_nth_eq less_Suc_eq numeral_2_eq_2)
  have "i_neverzero s = [False, False]" using eq2[OF l(1)] v by simp
  moreover have "i_neverupper s = [False, False]" using eq2[OF l(2)] v by simp
  moreover have "i_neverlower s = [False, False]" using eq2[OF l(3)] v by simp
  ultimately show ?thesis
    using p1 s by simp
qed

theorem eval_inverted_bounds_witness:
  "(\<forall>i. eval prims1 solver2 qp_inverted \<noteq> Inl (NoSignPossible i))
       \<and> (\<exists>s. eval_init solver2 qp_inverted = Inr s \<and> i_neverzero s = [False, False]
              \<and> i_neverupper s = [False, False] \<and> i_neverlower s = [False, False])"
proof -
  have h: "s_nx solver2 = 2" "s_na solver2 = 0"
    "arg_lbx qp_inverted = [1, 1]" "arg_ubx qp_inverted = [0, 0]"
    by (simp_all add: solver2_def qp_inverted_def)
  show ?thesis
    using eval_inverted_bounds[OF h, of prims1] by simp
qed


end
